(* ===== verification/Prelude.thy ===== *)
theory Prelude
  imports Main "HOL-Library.Word"
begin

text \<open>
  What every component shares: the outcome of a Go call that may panic, the wrap-around of
  Go's 64-bit \<open>int\<close>, and the generic lemmas on lists that the component theories use.
  A Go function that can panic returns \<open>panic + 'a\<close> (\<open>Inl\<close> the panic); a Go function with
  an \<open>error\<close> result keeps that error as a value of its own.
\<close>

named_theorems go_defs \<open>definitions unfolded when a model is evaluated\<close>
named_theorems go_simps \<open>simplification rules for panicking computations\<close>

section \<open>Panics\<close>

datatype panic =
    IndexOutOfRange
  | MakeSliceLen
  | TypeAssertion
  | NegativeShift
  | NilDereference
  | UnknownIndexType string
  | BadRegexp string
  | InvalidPattern string

type_synonym 'a go = "panic + 'a"

definition bindG :: "'a go \<Rightarrow> ('a \<Rightarrow> 'b go) \<Rightarrow> 'b go" where
  "bindG x f = (case x of Inl p \<Rightarrow> Inl p | Inr a \<Rightarrow> f a)"

lemma bindG_simps [simp, go_simps]:
  "bindG (Inl p) f = Inl p" "bindG (Inr a) f = f a"
  by (simp_all add: bindG_def)

lemma bindG_eq_Inr [simp]:
  "bindG x f = Inr b \<longleftrightarrow> (\<exists>a. x = Inr a \<and> f a = Inr b)"
  by (cases x) simp_all

lemma bindG_eq_Inl:
  "bindG x f = Inl p \<longleftrightarrow> x = Inl p \<or> (\<exists>a. x = Inr a \<and> f a = Inl p)"
  by (cases x) simp_all

lemma bindG_cong [fundef_cong]:
  assumes "x = y" and "\<And>a. y = Inr a \<Longrightarrow> f a = g a"
  shows "bindG x f = bindG y g"
  using assms by (cases y) simp_all

text \<open>A loop that calls a panicking body on each element and collects the results.\<close>

fun mapG :: "('a \<Rightarrow> 'b go) \<Rightarrow> 'a list \<Rightarrow> 'b list go" where
  "mapG f [] = Inr []"
| "mapG f (x # xs) = bindG (f x) (\<lambda>y. bindG (mapG f xs) (\<lambda>ys. Inr (y # ys)))"

text \<open>A loop whose body updates a state and may panic.\<close>

fun foldG :: "('a \<Rightarrow> 's \<Rightarrow> 's go) \<Rightarrow> 'a list \<Rightarrow> 's \<Rightarrow> 's go" where
  "foldG f [] s = Inr s"
| "foldG f (x # xs) s = bindG (f x s) (foldG f xs)"

lemma foldG_append: "foldG f (xs @ ys) s = bindG (foldG f xs s) (foldG f ys)"
proof (induction xs arbitrary: s)
  case (Cons x xs)
  then show ?case by (cases "f x s") simp_all
qed simp

text \<open>An invariant kept by every step of a loop holds for the state it leaves.\<close>

lemma foldG_invariant:
  assumes "foldG f xs s = Inr t" and "P s"
    and "\<And>x s t. x \<in> set xs \<Longrightarrow> P s \<Longrightarrow> f x s = Inr t \<Longrightarrow> P t"
  shows "P t"
  using assms
proof (induction xs arbitrary: s)
  case (Cons x xs)
  from Cons.prems(1) obtain u where u: "f x s = Inr u" and t: "foldG f xs u = Inr t" by auto
  from Cons.prems(2,3) u have "P u" by auto
  with t Cons.IH Cons.prems(3) show ?case by (meson list.set_intros(2))
qed simp

text \<open>A loop whose body never panics from a state with the invariant does not panic.\<close>

lemma foldG_total:
  assumes "P s" and "\<And>x s. x \<in> set xs \<Longrightarrow> P s \<Longrightarrow> \<exists>t. f x s = Inr t \<and> P t"
  shows "\<exists>t. foldG f xs s = Inr t \<and> P t"
  using assms
proof (induction xs arbitrary: s)
  case (Cons x xs)
  then obtain u where "f x s = Inr u" "P u" by (meson list.set_intros(1))
  with Cons show ?case by simp
qed simp

section \<open>Go's 64-bit signed int\<close>

text \<open>Every \<open>+\<close>, \<open>-\<close> and \<open>*\<close> of the source on \<open>int\<close> that could leave the range is wrapped.\<close>

definition i64 :: "int \<Rightarrow> int" where
  "i64 x = (x + 2 ^ 63) mod 2 ^ 64 - 2 ^ 63"

definition in_i64 :: "int \<Rightarrow> bool" where
  "in_i64 x \<longleftrightarrow> - (2 ^ 63) \<le> x \<and> x < 2 ^ 63"

lemma in_i64_i64 [simp]: "in_i64 (i64 x)"
proof -
  have "0 \<le> (x + 2 ^ 63) mod 2 ^ 64" "(x + 2 ^ 63) mod 2 ^ 64 < 2 ^ 64"
    by simp_all
  then show ?thesis by (simp add: in_i64_def i64_def)
qed

lemma i64_id [simp]: "in_i64 x \<Longrightarrow> i64 x = x"
  by (simp add: in_i64_def i64_def)

section \<open>Lists\<close>

lemma replicate_append_Suc: "replicate n x @ [x] = x # replicate n x"
  by (induction n) simp_all

lemma take_pad:
  assumes "n \<le> length xs"
  shows "take n (xs @ ys) = take n xs"
  using assms by simp

lemma list_all_nth_less:
  "list_all P xs \<Longrightarrow> i < length xs \<Longrightarrow> P (xs ! i)"
  by (simp add: list_all_length)

end
