(* ===== verification/GoStrings.thy ===== *)
theory GoStrings
  imports Prelude
begin

text \<open>
  The parts of Go's \<open>strings\<close>, \<open>strconv\<close> and \<open>fmt\<close> packages the source uses, on strings as
  lists of bytes: \<open>strings.Split\<close>, \<open>Join\<close>, \<open>HasPrefix\<close>, \<open>strconv.Itoa\<close>, \<open>Atoi\<close> (with its
  syntax and range errors), \<open>FormatUint\<close>, and the integer verbs of \<open>fmt.Sprintf\<close>. The round
  trips proved here carry the OID code.
\<close>

section \<open>Splitting and joining\<close>

text \<open>\<open>strings.Split(s, sep)\<close> for a one-byte separator.\<close>

fun split_on :: "char \<Rightarrow> string \<Rightarrow> string list" where
  "split_on c [] = [[]]"
| "split_on c (x # xs) =
     (if x = c then [] # split_on c xs
      else case split_on c xs of [] \<Rightarrow> [[x]] | w # ws \<Rightarrow> (x # w) # ws)"

text \<open>\<open>strings.Join(ws, sep)\<close>.\<close>

fun join :: "string \<Rightarrow> string list \<Rightarrow> string" where
  "join sep [] = []"
| "join sep [w] = w"
| "join sep (w # v # ws) = w @ sep @ join sep (v # ws)"

definition hasPrefix :: "string \<Rightarrow> string \<Rightarrow> bool" where
  "hasPrefix s p \<longleftrightarrow> take (length p) s = p"

lemma split_on_nonempty [simp]: "split_on c s \<noteq> []"
  by (induction s) (auto split: list.splits)

lemma split_on_no_sep: "c \<notin> set w \<Longrightarrow> split_on c w = [w]"
  by (induction w) auto

lemma split_on_append_sep:
  "c \<notin> set w \<Longrightarrow> split_on c (w @ c # s) = w # split_on c s"
  by (induction w) auto

lemma split_on_pieces: "w \<in> set (split_on c s) \<Longrightarrow> c \<notin> set w"
proof (induction s arbitrary: w)
  case (Cons x s)
  show ?case
  proof (cases "split_on c s")
    case Nil
    then show ?thesis by simp
  next
    case (Cons v vs)
    with Cons.IH have "\<forall>u \<in> set (v # vs). c \<notin> set u" by simp
    with Cons Cons.prems show ?thesis by (auto split: if_splits)
  qed
qed simp

lemma split_on_join:
  assumes "ws \<noteq> []" and "\<forall>w \<in> set ws. c \<notin> set w"
  shows "split_on c (join [c] ws) = ws"
  using assms
  by (induction "[c]" ws rule: join.induct) (auto simp: split_on_no_sep split_on_append_sep)

lemma join_Cons_eq: "ws \<noteq> [] \<Longrightarrow> join sep (w # ws) = w @ sep @ join sep ws"
  by (cases ws) simp_all

lemma join_split_on: "join [c] (split_on c s) = s"
proof (induction s)
  case (Cons x s)
  show ?case
  proof (cases "split_on c s")
    case Nil
    then show ?thesis by simp
  next
    case v: (Cons v vs)
    with Cons.IH show ?thesis by (cases vs) auto
  qed
qed simp

lemma hasPrefix_append [simp]: "hasPrefix (p @ s) p"
  by (simp add: hasPrefix_def)

lemma hasPrefix_iff: "hasPrefix s p \<longleftrightarrow> (\<exists>r. s = p @ r)"
  unfolding hasPrefix_def by (metis append_eq_conv_conj append_take_drop_id)

lemma hasPrefix_Nil [simp]: "hasPrefix s []"
  by (simp add: hasPrefix_def)

lemma hasPrefix_refl [simp]: "hasPrefix s s"
  by (simp add: hasPrefix_def)

lemma hasPrefix_trans: "hasPrefix a b \<Longrightarrow> hasPrefix b c \<Longrightarrow> hasPrefix a c"
  by (auto simp: hasPrefix_iff)

section \<open>Printing integers\<close>

text \<open>Digits as Go prints them: \<open>0-9\<close> then letters, from \<open>a\<close> or from \<open>A\<close> (\<open>%X\<close>).\<close>

definition digit_char :: "nat \<Rightarrow> char" where
  "digit_char d = char_of (if d < 10 then 48 + d else 55 + d)"

text \<open>\<open>strconv.FormatUint(n, base)\<close> with upper-case digits above nine.\<close>

fun formatUint :: "nat \<Rightarrow> nat \<Rightarrow> string" where
  "formatUint base n =
     (if base \<le> 1 \<or> n < base then [digit_char n]
      else formatUint base (n div base) @ [digit_char (n mod base)])"

declare formatUint.simps [simp del]

definition itoa :: "int \<Rightarrow> string" where
  "itoa i = (if i < 0 then CHR ''-'' # formatUint 10 (nat (- i)) else formatUint 10 (nat i))"

text \<open>Zero padding on the left to a width, as \<open>%0w\<close> does for a number without a sign.\<close>

definition pad0 :: "nat \<Rightarrow> string \<Rightarrow> string" where
  "pad0 w s = replicate (w - length s) (CHR ''0'') @ s"

text \<open>\<open>fmt.Sprintf("%02X", o)\<close>: the sign, if any, counts towards the width.\<close>

definition sprintf_02X :: "int \<Rightarrow> string" where
  "sprintf_02X i =
     (if i < 0 then CHR ''-'' # pad0 1 (formatUint 16 (nat (- i)))
      else pad0 2 (formatUint 16 (nat i)))"

text \<open>\<open>fmt.Sprintf("%X", s)\<close> on a string of bytes.\<close>

definition hex_byte :: "nat \<Rightarrow> string" where
  "hex_byte b = [digit_char (b div 16), digit_char (b mod 16)]"

definition sprintf_X :: "nat list \<Rightarrow> string" where
  "sprintf_X bs = concat (map hex_byte bs)"

section \<open>Reading integers\<close>

datatype num_error = ErrSyntax | ErrRange

definition is_digit :: "char \<Rightarrow> bool" where
  "is_digit c \<longleftrightarrow> (48::nat) \<le> of_char c \<and> of_char c \<le> (57::nat)"

definition digit_val :: "char \<Rightarrow> nat" where
  "digit_val c = of_char c - 48"

text \<open>\<open>strconv.ParseUint(s, 10, 64)\<close>: the error is found left to right.\<close>

fun parseUint_loop :: "nat \<Rightarrow> string \<Rightarrow> nat \<times> num_error option" where
  "parseUint_loop n [] = (n, None)"
| "parseUint_loop n (c # cs) =
     (if \<not> is_digit c then (0, Some ErrSyntax)
      else let n1 = n * 10 + digit_val c in
        if 2 ^ 64 \<le> n1 then (2 ^ 64 - 1, Some ErrRange) else parseUint_loop n1 cs)"

definition parseUint :: "string \<Rightarrow> nat \<times> num_error option" where
  "parseUint s = (if s = [] then (0, Some ErrSyntax) else parseUint_loop 0 s)"

text \<open>\<open>strconv.Atoi\<close>: the value is 0 on a syntax error and the nearest bound on a range error.\<close>

definition atoi_sign :: "bool \<Rightarrow> nat \<times> num_error option \<Rightarrow> int \<times> num_error option" where
  "atoi_sign neg r =
     (if snd r = Some ErrSyntax then (0, Some ErrSyntax)
      else if \<not> neg \<and> 2 ^ 63 \<le> fst r then (2 ^ 63 - 1, Some ErrRange)
      else if neg \<and> 2 ^ 63 < fst r then (- (2 ^ 63), Some ErrRange)
      else (if neg then - int (fst r) else int (fst r), None))"

definition atoi :: "string \<Rightarrow> int \<times> num_error option" where
  "atoi s = (case s of
       [] \<Rightarrow> (0, Some ErrSyntax)
     | c # cs \<Rightarrow>
         if c = CHR ''-'' then atoi_sign True (parseUint cs)
         else if c = CHR ''+'' then atoi_sign False (parseUint cs)
         else atoi_sign False (parseUint s))"

lemma char_of_iff: "n < 256 \<Longrightarrow> char_of (n :: nat) = c \<longleftrightarrow> n = of_char c"
  by (auto simp: char_of_eq_iff take_bit_eq_mod)

lemma of_char_digit_char:
  "d < 16 \<Longrightarrow> (of_char (digit_char d) :: nat) = (if d < 10 then 48 + d else 55 + d)"
  by (simp add: digit_char_def)

lemma is_digit_digit_char [simp]: "d < 10 \<Longrightarrow> is_digit (digit_char d)"
  by (simp add: is_digit_def of_char_digit_char)

lemma digit_val_digit_char [simp]: "d < 10 \<Longrightarrow> digit_val (digit_char d) = d"
  by (simp add: digit_val_def of_char_digit_char)

lemma formatUint_nonempty [simp]: "formatUint b n \<noteq> []"
  by (subst formatUint.simps) simp

lemma formatUint_10_digits: "c \<in> set (formatUint 10 n) \<Longrightarrow> is_digit c"
proof (induction "10::nat" n rule: formatUint.induct)
  case (1 n)
  from "1.prems" show ?case
    by (subst (asm) formatUint.simps) (auto split: if_splits intro: "1.hyps")
qed

lemma parseUint_loop_append:
  "parseUint_loop n s = (m, None) \<Longrightarrow> parseUint_loop n (s @ t) = parseUint_loop m t"
  by (induction n s rule: parseUint_loop.induct) (auto simp: Let_def split: if_splits)

lemma parseUint_formatUint:
  "n < 2 ^ 64 \<Longrightarrow> parseUint_loop 0 (formatUint 10 n) = (n, None)"
proof (induction "10::nat" n rule: formatUint.induct)
  case (1 n)
  show ?case
  proof (cases "n < 10")
    case True
    then show ?thesis by (subst formatUint.simps) (simp add: Let_def)
  next
    case False
    with 1 have "parseUint_loop 0 (formatUint 10 (n div 10)) = (n div 10, None)" by simp
    then have "parseUint_loop 0 (formatUint 10 (n div 10) @ [digit_char (n mod 10)]) = (n, None)"
      using "1.prems" by (simp add: parseUint_loop_append Let_def)
    with False show ?thesis by (subst formatUint.simps) simp
  qed
qed

lemma is_digit_not_sign: "is_digit c \<Longrightarrow> c \<noteq> CHR ''-'' \<and> c \<noteq> CHR ''+'' \<and> c \<noteq> CHR ''.''"
  by (auto simp: is_digit_def)

theorem atoi_itoa:
  assumes "in_i64 i"
  shows "atoi (itoa i) = (i, None)"
proof (cases "i < 0")
  case True
  with assms have "nat (- i) < 2 ^ 64" by (simp add: in_i64_def)
  with True assms show ?thesis
    by (simp add: atoi_def itoa_def parseUint_def parseUint_formatUint atoi_sign_def in_i64_def)
next
  case False
  with assms have b: "nat i < 2 ^ 64" by (simp add: in_i64_def)
  obtain c cs where c: "formatUint 10 (nat i) = c # cs"
    by (cases "formatUint 10 (nat i)") simp_all
  then have d: "is_digit c" using formatUint_10_digits [of c "nat i"] by simp
  have "atoi (itoa i) = atoi_sign False (parseUint (c # cs))"
    using False d by (simp add: atoi_def itoa_def c is_digit_not_sign)
  also have "parseUint (c # cs) = (nat i, None)"
    using parseUint_formatUint [OF b] by (simp only: parseUint_def c list.distinct if_False)
  finally show ?thesis using False assms by (simp add: atoi_sign_def in_i64_def)
qed

lemma itoa_no_dot: "CHR ''.'' \<notin> set (itoa i)"
  using formatUint_10_digits is_digit_not_sign by (auto simp: itoa_def)

lemma itoa_nonempty [simp]: "itoa i \<noteq> []"
  by (simp add: itoa_def)

lemma hex_byte_length [simp]: "length (hex_byte b) = 2"
  by (simp add: hex_byte_def)

lemma length_sprintf_X: "length (sprintf_X bs) = 2 * length bs"
  by (induction bs) (simp_all add: sprintf_X_def)

end
