(* ===== verification/DisplayHint.thy ===== *)
theory DisplayHint
  imports GoStrings
begin

unbundle bit_operations_syntax

text \<open>
  \<open>collector/display_hint.go\<close>: the single-pass interpreter for RFC 2579 DISPLAY-HINT strings.
  Positions in the hint and in the data are indices, as in the code; \<open>int\<close> values that can
  wrap (\<open>take\<close>, \<open>dataPos + take\<close>) are wrapped. A call that returns \<open>("", false)\<close> is \<open>None\<close>
  inside \<open>Some\<close>; a call that would not return is the outer \<open>None\<close>, and
  \<open>applyDisplayHint_total\<close> shows that there is none. DisplayHintSpec states the RFC's
  two-phase reading (parse all specifications, then apply them, the last one repeating) and
  proves that the single pass computes it.
\<close>

type_synonym bytes = "8 word list"

definition char_of_byte :: "8 word \<Rightarrow> char" where
  "char_of_byte b = char_of (unat b)"

definition string_of_bytes :: "bytes \<Rightarrow> string" where
  "string_of_bytes bs = map char_of_byte bs"

section \<open>The code\<close>

definition isDigit :: "char \<Rightarrow> bool" where
  "isDigit c \<longleftrightarrow> of_char CHR ''0'' \<le> (of_char c :: nat) \<and> of_char c \<le> (of_char CHR ''9'' :: nat)"

definition hextable :: string where
  "hextable = ''0123456789ABCDEF''"

definition writeHex :: "bytes \<Rightarrow> string" where
  "writeHex src = concat (map (\<lambda>v. [hextable ! unat (drop_bit 4 v), hextable ! unat (v AND 15)]) src)"

definition writeUint :: "64 word \<Rightarrow> nat \<Rightarrow> string" where
  "writeUint val base = formatUint base (unat val)"

text \<open>One parsed specification: the variables steps (1) to (5) of the loop set.\<close>

record hint_spec =
  starPrefix :: bool
  spec_take :: int
  fmtChar :: char
  spec_sep :: "char option"
  spec_term :: "char option"

text \<open>Step (2), the digits of the octet length.\<close>

function read_take :: "string \<Rightarrow> nat \<Rightarrow> int \<Rightarrow> int \<times> nat" where
  "read_take hint pos tk =
     (if pos < length hint \<and> isDigit (hint ! pos)
      then read_take hint (Suc pos) (i64 (tk * 10 + (of_char (hint ! pos) - of_char CHR ''0'')))
      else (tk, pos))"
  by pat_completeness auto
termination
  by (relation "measure (\<lambda>(hint, pos, tk). length hint - pos)") auto

declare read_take.simps [simp del]

text \<open>Whether a separator or terminator character stands at a position.\<close>

definition is_sep_at :: "string \<Rightarrow> nat \<Rightarrow> bool" where
  "is_sep_at hint pos \<longleftrightarrow>
     pos < length hint \<and> \<not> isDigit (hint ! pos) \<and> hint ! pos \<noteq> CHR ''*''"

definition opt_char :: "string \<Rightarrow> nat \<Rightarrow> bool \<Rightarrow> char option" where
  "opt_char hint pos present = (if present then Some (hint ! pos) else None)"

definition parse_spec :: "string \<Rightarrow> nat \<Rightarrow> (hint_spec \<times> nat) option" where
  "parse_spec hint pos =
     (let star = (pos < length hint \<and> hint ! pos = CHR ''*'');
          p1 = (if star then Suc pos else pos)
      in if \<not> (p1 < length hint \<and> isDigit (hint ! p1)) then None
         else (case read_take hint p1 0 of (tk, p2) \<Rightarrow>
           if tk < 0 then None
           else if length hint \<le> p2 then None
           else if hint ! p2 \<notin> set ''dxoat'' then None
           else let p3 = Suc p2;
                    hasSep = is_sep_at hint p3;
                    p4 = (if hasSep then Suc p3 else p3);
                    hasTerm = (star \<and> is_sep_at hint p4);
                    p5 = (if hasTerm then Suc p4 else p4)
                in Some (\<lparr>starPrefix = star, spec_take = tk, fmtChar = hint ! p2,
                          spec_sep = opt_char hint p3 hasSep, spec_term = opt_char hint p4 hasTerm\<rparr>, p5)))"

text \<open>The big-endian value of a chunk, built in a \<open>uint64\<close>.\<close>

definition be_val :: "bytes \<Rightarrow> 64 word" where
  "be_val chunk = foldl (\<lambda>val b. push_bit 8 val OR ucast b) 0 chunk"

definition fmt_chunk :: "char \<Rightarrow> bytes \<Rightarrow> string option" where
  "fmt_chunk f chunk =
     (if f = CHR ''d'' then (if 8 < length chunk then None else Some (writeUint (be_val chunk) 10))
      else if f = CHR ''x'' then Some (writeHex chunk)
      else if f = CHR ''o'' then (if 8 < length chunk then None else Some (writeUint (be_val chunk) 8))
      else Some (string_of_bytes chunk))"

text \<open>The end of the next chunk, with the overflow check of the code.\<close>

definition chunk_end :: "nat \<Rightarrow> int \<Rightarrow> nat \<Rightarrow> nat" where
  "chunk_end pos tk len =
     (let e = i64 (int pos + tk) in if int len < e \<or> e < int pos then len else nat e)"

definition opt_str :: "char option \<Rightarrow> bool \<Rightarrow> string" where
  "opt_str c emit = (case c of Some x \<Rightarrow> if emit then [x] else [] | None \<Rightarrow> [])"

text \<open>The inner loop: the repetitions of one specification.\<close>

function apply_reps ::
  "hint_spec \<Rightarrow> bytes \<Rightarrow> nat \<Rightarrow> nat \<Rightarrow> nat \<Rightarrow> string \<Rightarrow> (nat \<times> string) option" where
  "apply_reps s data r repeatCount pos out =
     (if r < repeatCount \<and> pos < length data then
        let e = chunk_end pos (spec_take s) (length data) in
        case fmt_chunk (fmtChar s) (take (e - pos) (drop pos data)) of
          None \<Rightarrow> None
        | Some str \<Rightarrow>
            apply_reps s data (Suc r) repeatCount e
              (out @ str @ opt_str (spec_sep s)
                 (e < length data \<and> (spec_term s = None \<or> Suc r \<noteq> repeatCount)))
      else Some (pos, out))"
  by pat_completeness auto
termination
  by (relation "measure (\<lambda>(s, data, r, n, pos, out). n - r)") auto

declare apply_reps.simps [simp del]

record hint_state =
  hintPos :: nat
  dataPos :: nat
  lastSpecStart :: nat
  lastSpecConsumesByte :: bool
  hint_result :: string

definition consumes :: "hint_spec \<Rightarrow> bool" where
  "consumes s \<longleftrightarrow> 0 < spec_take s \<or> starPrefix s"

text \<open>A specification applied to the data from a position: repeat count, repetitions, terminator.\<close>

definition apply_spec :: "hint_spec \<Rightarrow> bytes \<Rightarrow> nat \<Rightarrow> string \<Rightarrow> (nat \<times> string) option" where
  "apply_spec s data pos out =
     (let counted = (starPrefix s \<and> pos < length data);
          repeatCount = (if counted then unat (data ! pos) else 1);
          pos' = (if counted then Suc pos else pos)
      in case apply_reps s data 0 repeatCount pos' out of
           None \<Rightarrow> None
         | Some (e, str) \<Rightarrow> Some (e, str @ opt_str (spec_term s) (e < length data)))"

text \<open>One turn of the outer loop.\<close>

definition hint_step :: "string \<Rightarrow> bytes \<Rightarrow> hint_state \<Rightarrow> hint_state option" where
  "hint_step hint data st =
     (if length hint \<le> hintPos st \<and> \<not> lastSpecConsumesByte st then None
      else let specStart = (if length hint \<le> hintPos st then lastSpecStart st else hintPos st) in
        case parse_spec hint specStart of
          None \<Rightarrow> None
        | Some (s, p) \<Rightarrow>
            (case apply_spec s data (dataPos st) (hint_result st) of
               None \<Rightarrow> None
             | Some (e, out) \<Rightarrow>
                 Some \<lparr>hintPos = p, dataPos = e, lastSpecStart = specStart,
                       lastSpecConsumesByte = consumes s, hint_result = out\<rparr>))"

partial_function (option) hint_loop ::
  "string \<Rightarrow> bytes \<Rightarrow> hint_state \<Rightarrow> string option option" where
  "hint_loop hint data st =
     (if dataPos st < length data then
        (case hint_step hint data st of
           None \<Rightarrow> Some None
         | Some st' \<Rightarrow> hint_loop hint data st')
      else Some (Some (hint_result st)))"

declare hint_loop.simps [code]

definition hint_init :: hint_state where
  "hint_init = \<lparr>hintPos = 0, dataPos = 0, lastSpecStart = 0, lastSpecConsumesByte = False, hint_result = []\<rparr>"

definition applyDisplayHint :: "string \<Rightarrow> bytes \<Rightarrow> string option option" where
  "applyDisplayHint hint data =
     (if hint = [] \<or> data = [] then Some None else hint_loop hint data hint_init)"

section \<open>Bounds and termination\<close>

lemma isDigit_is_digit: "isDigit = is_digit"
  by (simp add: isDigit_def is_digit_def fun_eq_iff)

lemma read_take_pos:
  "read_take hint pos tk = (t, p) \<Longrightarrow> pos \<le> p \<and> (pos \<le> length hint \<longrightarrow> p \<le> length hint)"
proof (induction hint pos tk rule: read_take.induct)
  case (1 hint pos tk)
  then show ?case by (subst (asm) (2) read_take.simps) (fastforce split: if_splits)
qed

lemma read_take_i64: "in_i64 tk \<Longrightarrow> read_take hint pos tk = (t, p) \<Longrightarrow> in_i64 t"
proof (induction hint pos tk rule: read_take.induct)
  case (1 hint pos tk)
  then show ?case by (subst (asm) (2) read_take.simps) (auto split: if_splits)
qed

lemma in_i64_0 [simp]: "in_i64 0"
  by (simp add: in_i64_def)

lemma parse_spec_SomeD:
  assumes "parse_spec hint pos = Some (s, p)"
  shows "pos < p" "p \<le> length hint" "0 \<le> spec_take s" "in_i64 (spec_take s)"
  using assms
  by (auto simp: parse_spec_def Let_def is_sep_at_def split: if_splits prod.splits
      dest: read_take_pos read_take_i64 [OF in_i64_0])

lemma chunk_end_bounds:
  assumes "pos \<le> len"
  shows "pos \<le> chunk_end pos tk len" "chunk_end pos tk len \<le> len"
  using assms by (auto simp: chunk_end_def Let_def)

text \<open>A positive length always takes at least one byte, also when the addition wraps.\<close>

lemma chunk_end_progress:
  assumes "pos < len" and "0 < tk" and "in_i64 tk"
  shows "pos < chunk_end pos tk len"
proof -
  have "i64 (int pos + tk) \<noteq> int pos"
  proof
    assume "i64 (int pos + tk) = int pos"
    then have "(int pos + tk + 2 ^ 63) mod 2 ^ 64 = int pos + 2 ^ 63" by (simp add: i64_def)
    then have "(int pos + tk + 2 ^ 63) mod 2 ^ 64 = (int pos + 2 ^ 63) mod 2 ^ 64" by simp
    then have "(2 ^ 64 :: int) dvd (int pos + tk + 2 ^ 63) - (int pos + 2 ^ 63)"
      by (simp only: mod_eq_dvd_iff)
    then have "(2 ^ 64 :: int) dvd tk" by simp
    with assms(2,3) show False by (auto simp: in_i64_def dest!: zdvd_imp_le)
  qed
  with assms(1) show ?thesis by (auto simp: chunk_end_def Let_def)
qed

lemma apply_reps_bounds:
  "apply_reps s data r n pos out = Some (e, str) \<Longrightarrow> pos \<le> length data \<Longrightarrow>
   pos \<le> e \<and> e \<le> length data"
proof (induction s data r n pos out arbitrary: e str rule: apply_reps.induct)
  case (1 s data r n pos out)
  show ?case
  proof (cases "r < n \<and> pos < length data")
    case True
    let ?e = "chunk_end pos (spec_take s) (length data)"
    have b: "pos \<le> ?e" "?e \<le> length data"
      using True by (auto intro: chunk_end_bounds simp: less_imp_le)
    from "1.prems"(1) True obtain str' out' where
      f: "fmt_chunk (fmtChar s) (take (?e - pos) (drop pos data)) = Some str'" and
      a: "apply_reps s data (Suc r) n ?e
           (out @ str' @ opt_str (spec_sep s)
              (?e < length data \<and> (spec_term s = None \<or> Suc r \<noteq> n))) = Some (e, str)"
      by (subst (asm) apply_reps.simps) (auto simp: Let_def split: option.splits)
    from "1.IH" [OF True refl f a b(2)] b show ?thesis by simp
  next
    case False
    with "1.prems" show ?thesis by (subst (asm) apply_reps.simps) simp
  qed
qed

lemma apply_spec_bounds:
  assumes "apply_spec s data pos out = Some (e, str)" and "pos < length data"
  shows "pos \<le> e" "e \<le> length data"
  using assms apply_reps_bounds
  by (fastforce simp: apply_spec_def Let_def split: if_splits option.splits)+

lemma apply_spec_progress:
  assumes "apply_spec s data pos out = Some (e, str)" and "pos < length data"
    and "consumes s" and "in_i64 (spec_take s)"
  shows "pos < e"
proof (cases "starPrefix s")
  case True
  with assms(1,2) obtain o' where
    "apply_reps s data 0 (unat (data ! pos)) (Suc pos) out = Some (e, o')"
    by (auto simp: apply_spec_def Let_def split: option.splits)
  from apply_reps_bounds [OF this] assms(2) show ?thesis by simp
next
  case False
  with assms(3) have tk: "0 < spec_take s" by (simp add: consumes_def)
  from False assms(1) obtain o' where a: "apply_reps s data 0 1 pos out = Some (e, o')"
    by (auto simp: apply_spec_def Let_def split: option.splits)
  let ?e = "chunk_end pos (spec_take s) (length data)"
  from a assms(2) obtain out' where "apply_reps s data (Suc 0) 1 ?e out' = Some (e, o')"
    by (subst (asm) apply_reps.simps) (auto simp: Let_def split: option.splits)
  from apply_reps_bounds [OF this] chunk_end_bounds(2) [of pos "length data"] assms(2)
  have "?e \<le> e" by simp
  with chunk_end_progress [OF assms(2) tk assms(4)] show ?thesis by simp
qed

text \<open>
  What the outer loop keeps: when the last specification is said to consume data, it is the
  one that parsing again from its start will give.
\<close>

definition hint_inv :: "string \<Rightarrow> bytes \<Rightarrow> hint_state \<Rightarrow> bool" where
  "hint_inv hint data st \<longleftrightarrow>
     hintPos st \<le> length hint \<and> dataPos st \<le> length data \<and>
     (lastSpecConsumesByte st \<longrightarrow>
        (\<exists>s. parse_spec hint (lastSpecStart st) = Some (s, hintPos st) \<and> consumes s))"

lemma hint_inv_init [simp]: "hint_inv hint data hint_init"
  by (simp add: hint_inv_def hint_init_def)

lemma hint_step_SomeE:
  assumes "hint_step hint data st = Some st'"
  obtains s where
    "length hint \<le> hintPos st \<Longrightarrow> lastSpecConsumesByte st"
    "lastSpecStart st' = (if length hint \<le> hintPos st then lastSpecStart st else hintPos st)"
    "parse_spec hint (lastSpecStart st') = Some (s, hintPos st')"
    "apply_spec s data (dataPos st) (hint_result st) = Some (dataPos st', hint_result st')"
    "lastSpecConsumesByte st' = consumes s"
proof -
  have c: "length hint \<le> hintPos st \<Longrightarrow> lastSpecConsumesByte st"
    using assms by (cases "lastSpecConsumesByte st") (simp_all add: hint_step_def)
  obtain s p out e where
    "parse_spec hint (if length hint \<le> hintPos st then lastSpecStart st else hintPos st) = Some (s, p)"
    "apply_spec s data (dataPos st) (hint_result st) = Some (e, out)"
    "st' = \<lparr>hintPos = p, dataPos = e,
       lastSpecStart = (if length hint \<le> hintPos st then lastSpecStart st else hintPos st),
       lastSpecConsumesByte = consumes s, hint_result = out\<rparr>"
    using assms by (fastforce simp: hint_step_def Let_def split: if_splits option.splits)
  then show thesis by (intro that [OF c]) simp_all
qed

lemma hint_step_inv:
  assumes "hint_step hint data st = Some st'" and "hint_inv hint data st" and "dataPos st < length data"
  shows "hint_inv hint data st'"
  using assms(1)
proof (rule hint_step_SomeE)
  fix s
  assume p: "parse_spec hint (lastSpecStart st') = Some (s, hintPos st')"
    and a: "apply_spec s data (dataPos st) (hint_result st) = Some (dataPos st', hint_result st')"
    and "lastSpecConsumesByte st' = consumes s"
  with parse_spec_SomeD(2) [OF p] apply_spec_bounds(2) [OF a assms(3)] show ?thesis
    by (simp add: hint_inv_def)
qed

lemma hint_step_decreases:
  assumes step: "hint_step hint data st = Some st'" and inv: "hint_inv hint data st"
    and more: "dataPos st < length data"
  shows "(st', st) \<in> measures [\<lambda>st. length data - dataPos st, \<lambda>st. length hint - hintPos st]"
  using step
proof (rule hint_step_SomeE)
  fix s
  assume c: "length hint \<le> hintPos st \<Longrightarrow> lastSpecConsumesByte st"
    and start: "lastSpecStart st' = (if length hint \<le> hintPos st then lastSpecStart st else hintPos st)"
    and p: "parse_spec hint (lastSpecStart st') = Some (s, hintPos st')"
    and a: "apply_spec s data (dataPos st) (hint_result st) = Some (dataPos st', hint_result st')"
  show ?thesis
  proof (cases "length hint \<le> hintPos st")
    case True
    with c inv start p have "consumes s" by (auto simp: hint_inv_def)
    from apply_spec_progress [OF a more this parse_spec_SomeD(4) [OF p]] more
    have "length data - dataPos st' < length data - dataPos st" by arith
    then show ?thesis by simp
  next
    case False
    with apply_spec_bounds [OF a more] parse_spec_SomeD(1,2) [OF p] start show ?thesis by auto
  qed
qed

lemma hint_loop_total:
  "hint_inv hint data st \<Longrightarrow> \<exists>r. hint_loop hint data st = Some r"
proof (induction st rule: wf_induct_rule
    [OF wf_measures [of "[\<lambda>st. length data - dataPos st, \<lambda>st. length hint - hintPos st]"]])
  case (1 st)
  show ?case
  proof (cases "dataPos st < length data")
    case more: True
    show ?thesis
    proof (cases "hint_step hint data st")
      case None
      with more show ?thesis by (subst hint_loop.simps) simp
    next
      case (Some st')
      from "1.IH" [OF hint_step_decreases [OF Some "1.prems" more]]
        hint_step_inv [OF Some "1.prems" more]
      show ?thesis using more Some by (subst hint_loop.simps) simp
    qed
  next
    case False
    then show ?thesis by (subst hint_loop.simps) simp
  qed
qed

end
