(* ===== verification/DisplayHintSpec.thy ===== *)
theory DisplayHintSpec
  imports DisplayHint
begin

text \<open>
  RFC 2579 section 3.1 as a specification: a DISPLAY-HINT is a list of octet-format
  specifications, applied to the data from left to right, the last one repeated until the
  data is used up. The interpreter of \<open>DisplayHint\<close> parses and applies in one pass over two
  positions; here it is shown to compute this specification, and its output is worked out for
  the hints the MIBs use.
\<close>

section \<open>The two-phase reading\<close>

function parse_hint :: "string \<Rightarrow> nat \<Rightarrow> hint_spec list option" where
  "parse_hint hint pos =
     (if length hint \<le> pos then Some []
      else case parse_spec hint pos of
             None \<Rightarrow> None
           | Some (s, p) \<Rightarrow> map_option (Cons s) (parse_hint hint p))"
  by pat_completeness auto
termination
  by (relation "measure (\<lambda>(hint, pos). length hint - pos)") (auto dest: parse_spec_SomeD(1))

declare parse_hint.simps [simp del]

fun ref_reps :: "hint_spec \<Rightarrow> nat \<Rightarrow> bytes \<Rightarrow> (bytes \<times> string) option" where
  "ref_reps s 0 d = Some (d, [])"
| "ref_reps s (Suc n) d =
     (if d = [] then Some ([], [])
      else case fmt_chunk (fmtChar s) (take (nat (spec_take s)) d) of
             None \<Rightarrow> None
           | Some str \<Rightarrow>
               (let d' = drop (nat (spec_take s)) d in
                map_option (\<lambda>(d'', o').
                    (d'', str @ opt_str (spec_sep s) (d' \<noteq> [] \<and> (spec_term s = None \<or> n \<noteq> 0)) @ o'))
                  (ref_reps s n d')))"

text \<open>A starred specification reads its repeat count from the data.\<close>

definition ref_spec :: "hint_spec \<Rightarrow> bytes \<Rightarrow> (bytes \<times> string) option" where
  "ref_spec s d =
     (let counted = (starPrefix s \<and> d \<noteq> []) in
      map_option (\<lambda>(d', o'). (d', o' @ opt_str (spec_term s) (d' \<noteq> [])))
        (ref_reps s (if counted then unat (hd d) else 1) (if counted then tl d else d)))"

lemma ref_reps_suffix: "ref_reps s n d = Some (d', o') \<Longrightarrow> \<exists>k. d' = drop k d"
proof (induction s n d arbitrary: d' o' rule: ref_reps.induct)
  case (1 s d)
  then have "d' = drop 0 d" by simp
  then show ?case by blast
next
  case (2 s n d)
  show ?case
  proof (cases "d = []")
    case False
    with "2.prems" obtain str o'' where
      f: "fmt_chunk (fmtChar s) (take (nat (spec_take s)) d) = Some str" and
      r: "ref_reps s n (drop (nat (spec_take s)) d) = Some (d', o'')"
      by (auto simp: Let_def split: option.splits)
    from "2.IH" [OF False f refl r] show ?thesis by (metis drop_drop)
  qed (use 2 in simp)
qed

lemma ref_reps_length: "ref_reps s n d = Some (d', o') \<Longrightarrow> length d' \<le> length d"
  using ref_reps_suffix [of s n d d' o'] by auto

lemma ref_spec_suffix:
  assumes "ref_spec s d = Some (d', o')"
  shows "\<exists>k. d' = drop k d"
proof (cases "starPrefix s \<and> d \<noteq> []")
  case True
  with assms obtain o'' where "ref_reps s (unat (hd d)) (tl d) = Some (d', o'')"
    by (auto simp: ref_spec_def Let_def)
  then show ?thesis by (metis ref_reps_suffix drop_Suc)
next
  case False
  then have "ref_spec s d = map_option (\<lambda>(d', o'). (d', o' @ opt_str (spec_term s) (d' \<noteq> [])))
      (ref_reps s 1 d)" by (simp only: ref_spec_def Let_def if_False)
  with assms obtain o'' where "ref_reps s 1 d = Some (d', o'')" by auto
  then show ?thesis by (rule ref_reps_suffix)
qed

lemma ref_spec_shrinks:
  assumes "ref_spec s d = Some (d', o')" and "d \<noteq> []" and "consumes s"
  shows "length d' < length d"
proof (cases "starPrefix s")
  case True
  with assms obtain o'' where "ref_reps s (unat (hd d)) (tl d) = Some (d', o'')"
    by (auto simp: ref_spec_def)
  from ref_reps_length [OF this] assms(2) show ?thesis by (cases d) auto
next
  case False
  with assms have "0 < spec_take s" by (simp add: consumes_def)
  moreover from False assms have "d' = drop (nat (spec_take s)) d"
    by (auto simp: ref_spec_def Let_def split: option.splits)
  ultimately show ?thesis using assms(2) by simp
qed

function ref_run :: "hint_spec list \<Rightarrow> bytes \<Rightarrow> string option" where
  "ref_run [] d = (if d = [] then Some [] else None)"
| "ref_run (s # ss) d =
     (if d = [] then Some []
      else case ref_spec s d of
             None \<Rightarrow> None
           | Some (d', o') \<Rightarrow>
               map_option ((@) o')
                 (if ss \<noteq> [] then ref_run ss d'
                  else if consumes s then ref_run [s] d'
                  else if d' = [] then Some [] else None))"
  by pat_completeness auto
termination
proof (relation "measures [\<lambda>(ss, d). length d, \<lambda>(ss, d). length ss]", goal_cases)
  case (2 s ss d p d' o')
  then obtain k where "d' = drop k d" using ref_spec_suffix by metis
  then have "length d' \<le> length d" by simp
  with 2 show ?case by auto
next
  case (3 s ss d p d' o')
  then show ?case using ref_spec_shrinks by auto
qed simp

declare ref_run.simps(2) [simp del]

section \<open>The single pass computes it\<close>

lemma chunk_end_min:
  assumes "pos \<le> len" and "0 \<le> tk" and "in_i64 tk" and "len < 2 ^ 63"
  shows "chunk_end pos tk len = min (pos + nat tk) len"
proof (cases "int pos + tk < 2 ^ 63")
  case True
  then have "in_i64 (int pos + tk)" using assms by (simp add: in_i64_def)
  with assms(2) show ?thesis by (auto simp: chunk_end_def Let_def nat_add_distrib min_def)
next
  case False
  have "int len < 2 ^ 63" using assms(4) by (simp add: of_nat_less_numeral_power_cancel_iff)
  then have "int pos < 2 ^ 63" using assms(1) by linarith
  moreover have "tk < 2 ^ 63" using assms(3) by (simp add: in_i64_def)
  moreover have "(int pos + tk + 2 ^ 63) mod 2 ^ 64 = (int pos + tk + 2 ^ 63 - 2 ^ 64) mod 2 ^ 64"
    by (rule minus_mod_self2 [symmetric])
  ultimately have "(int pos + tk + 2 ^ 63) mod 2 ^ 64 = int pos + tk + 2 ^ 63 - 2 ^ 64"
    using False by (simp only: mod_pos_pos_trivial) (subst mod_pos_pos_trivial, simp_all)
  then have "i64 (int pos + tk) < int pos" using \<open>tk < 2 ^ 63\<close> by (simp add: i64_def)
  with False assms(1,2,4) show ?thesis by (auto simp: chunk_end_def Let_def min_def)
qed

lemma apply_reps_ref:
  assumes "pos \<le> length data" and "0 \<le> spec_take s" "in_i64 (spec_take s)" "length data < 2 ^ 63"
  shows "apply_reps s data r (r + n) pos out =
     map_option (\<lambda>(d, o'). (length data - length d, out @ o')) (ref_reps s n (drop pos data))"
  using assms(1)
proof (induction n arbitrary: r pos out)
  case 0
  then show ?case by (subst apply_reps.simps) simp
next
  case (Suc n)
  show ?case
  proof (cases "pos < length data")
    case False
    with Suc.prems show ?thesis by (subst apply_reps.simps) simp
  next
    case True
    let ?e = "chunk_end pos (spec_take s) (length data)"
    have e: "?e = min (pos + nat (spec_take s)) (length data)"
      using assms(2-4) Suc.prems by (intro chunk_end_min) auto
    have chunk: "take (?e - pos) (drop pos data) = take (nat (spec_take s)) (drop pos data)"
      using e True by (auto simp: min_def)
    have rest: "drop ?e data = drop (nat (spec_take s)) (drop pos data)"
      using e by (auto simp: min_def add.commute)
    have ne: "(drop (nat (spec_take s)) (drop pos data) \<noteq> []) = (?e < length data)"
      unfolding rest [symmetric] by (simp add: not_le)
    have IH: "apply_reps s data (Suc r) (Suc (r + n)) ?e out' =
        map_option (\<lambda>(d, o'). (length data - length d, out' @ o'))
          (ref_reps s n (drop (nat (spec_take s)) (drop pos data)))" for out'
      using Suc.IH [of ?e "Suc r" out'] e unfolding rest by simp
    define d where "d = drop pos data"
    have dne: "d \<noteq> []" using True by (simp add: d_def)
    note facts = chunk [folded d_def] IH [folded d_def] ne [folded d_def]
    show ?thesis
    proof (cases "fmt_chunk (fmtChar s) (take (nat (spec_take s)) d)")
      case None
      with True dne show ?thesis
        by (subst apply_reps.simps) (simp add: Let_def facts flip: d_def)
    next
      case (Some str)
      with True dne show ?thesis
        by (subst apply_reps.simps)
          (simp add: Let_def facts option.map_comp o_def case_prod_beta'
            del: drop_eq_Nil flip: d_def)
    qed
  qed
qed

lemma apply_spec_ref:
  assumes "pos < length data" and "0 \<le> spec_take s" "in_i64 (spec_take s)" "length data < 2 ^ 63"
  shows "apply_spec s data pos out =
     map_option (\<lambda>(d, o'). (length data - length d, out @ o')) (ref_spec s (drop pos data))"
proof -
  define counted where "counted = starPrefix s"
  define n where "n = (if counted then unat (data ! pos) else 1)"
  define pos' where "pos' = (if counted then Suc pos else pos)"
  have "apply_reps s data 0 n pos' out =
      map_option (\<lambda>(d, o'). (length data - length d, out @ o')) (ref_reps s n (drop pos' data))"
    using apply_reps_ref [of pos' data s 0 n out] assms by (simp add: pos'_def)
  moreover have "length data - length d < length data \<longleftrightarrow> d \<noteq> []" for d :: bytes
    using assms(1) by (cases d) auto
  ultimately show ?thesis using assms(1)
    by (simp add: apply_spec_def ref_spec_def Let_def n_def pos'_def counted_def hd_drop_conv_nth
        tl_drop drop_Suc option.map_comp o_def case_prod_beta' split: option.split)
qed

text \<open>What the state of the loop says about the specifications still to apply.\<close>

definition pending_specs :: "string \<Rightarrow> hint_state \<Rightarrow> hint_spec list \<Rightarrow> bool" where
  "pending_specs hint st ss \<longleftrightarrow> ss \<noteq> [] \<and>
     (if hintPos st < length hint then parse_hint hint (hintPos st) = Some ss
      else lastSpecConsumesByte st \<and>
        (\<exists>s. ss = [s] \<and> consumes s \<and> parse_spec hint (lastSpecStart st) = Some (s, hintPos st)))"

lemma hint_step_pending:
  assumes "pending_specs hint st (s # ss)"
  obtains p where
    "parse_spec hint (if length hint \<le> hintPos st then lastSpecStart st else hintPos st) = Some (s, p)"
    "hint_step hint data st =
       map_option (\<lambda>(e, out). \<lparr>hintPos = p, dataPos = e,
         lastSpecStart = (if length hint \<le> hintPos st then lastSpecStart st else hintPos st),
         lastSpecConsumesByte = consumes s, hint_result = out\<rparr>)
       (apply_spec s data (dataPos st) (hint_result st))"
    "parse_hint hint p = Some ss" "length hint \<le> p \<longleftrightarrow> ss = []"
proof -
  let ?start = "if length hint \<le> hintPos st then lastSpecStart st else hintPos st"
  obtain p where p: "parse_spec hint ?start = Some (s, p)" "parse_hint hint p = Some ss"
      "\<not> (length hint \<le> hintPos st \<and> \<not> lastSpecConsumesByte st)"
    using assms unfolding pending_specs_def
    by (subst (asm) (1) parse_hint.simps)
      (auto split: if_splits option.splits simp: parse_hint.simps [of hint "hintPos st"])
  have "length hint \<le> p \<longleftrightarrow> ss = []"
    using p(2) by (subst (asm) parse_hint.simps) (auto split: if_splits option.splits)
  moreover have "hint_step hint data st = map_option (\<lambda>(e, out). \<lparr>hintPos = p, dataPos = e,
      lastSpecStart = ?start, lastSpecConsumesByte = consumes s, hint_result = out\<rparr>)
      (apply_spec s data (dataPos st) (hint_result st))"
    using p(1,3) by (simp add: hint_step_def Let_def del: de_Morgan_conj split: option.split)
  ultimately show thesis using that [OF p(1) _ p(2)] by blast
qed

lemma append_section: "(@) (xs @ ys) = (\<lambda>zs. xs @ ys @ zs)"
  by (simp add: fun_eq_iff)

lemma hint_loop_ref:
  assumes "pending_specs hint st ss" and "dataPos st \<le> length data" and "length data < 2 ^ 63"
  shows "hint_loop hint data st =
    Some (map_option ((@) (hint_result st)) (ref_run ss (drop (dataPos st) data)))"
  using assms(1,2)
proof (induction ss "drop (dataPos st) data" arbitrary: st rule: ref_run.induct)
  case 1
  then show ?case by (simp add: pending_specs_def)
next
  case (2 s ss st)
  let ?d = "drop (dataPos st) data"
  show ?case
  proof (cases "dataPos st < length data")
    case False
    with "2.prems" show ?thesis by (subst hint_loop.simps) (simp add: ref_run.simps)
  next
    case more: True
    from "2.prems"(1) obtain p where
      p: "parse_spec hint (if length hint \<le> hintPos st then lastSpecStart st else hintPos st) = Some (s, p)"
      and step: "hint_step hint data st =
       map_option (\<lambda>(e, out). \<lparr>hintPos = p, dataPos = e,
         lastSpecStart = (if length hint \<le> hintPos st then lastSpecStart st else hintPos st),
         lastSpecConsumesByte = consumes s, hint_result = out\<rparr>)
       (apply_spec s data (dataPos st) (hint_result st))"
      and rest: "parse_hint hint p = Some ss" "length hint \<le> p \<longleftrightarrow> ss = []"
      by (rule hint_step_pending)
    have a: "apply_spec s data (dataPos st) (hint_result st) =
        map_option (\<lambda>(d, o'). (length data - length d, hint_result st @ o')) (ref_spec s ?d)"
      using more parse_spec_SomeD(3,4) [OF p] assms(3) by (intro apply_spec_ref)
    show ?thesis
    proof (cases "ref_spec s ?d")
      case None
      with more step a show ?thesis by (subst hint_loop.simps) (simp add: ref_run.simps)
    next
      case (Some dr)
      obtain d' o' where r: "ref_spec s ?d = Some (d', o')" using Some by (cases dr) auto
      define st' where "st' = \<lparr>hintPos = p, dataPos = length data - length d',
         lastSpecStart = (if length hint \<le> hintPos st then lastSpecStart st else hintPos st),
         lastSpecConsumesByte = consumes s, hint_result = hint_result st @ o'\<rparr>"
      have loop: "hint_loop hint data st = hint_loop hint data st'"
        using more step a r by (subst hint_loop.simps) (simp add: st'_def)
      obtain k where "d' = drop k ?d"
        using ref_spec_suffix [OF r] by blast
      then have d': "d' = drop (dataPos st') data" by (cases "k + dataPos st \<le> length data"; simp add: st'_def add.commute)
      have ne: "?d \<noteq> []" using more by simp
      from r d' have r': "ref_spec s ?d = Some (drop (dataPos st') data, o')" by simp
      have le: "dataPos st' \<le> length data" by (simp add: st'_def)
      consider "ss \<noteq> []" | "ss = []" "consumes s" | "ss = []" "\<not> consumes s" by blast
      then show ?thesis
      proof cases
        case 1
        then have "pending_specs hint st' ss" using rest by (auto simp: pending_specs_def st'_def)
        from "2.hyps"(1) [OF ne r' refl 1 this le] 1 ne r' loop show ?thesis
          by (simp add: ref_run.simps option.map_comp o_def st'_def append_section)
      next
        case 2
        then have "pending_specs hint st' [s]" using rest p by (auto simp: pending_specs_def st'_def)
        from "2.hyps"(2) [OF ne r' refl _ 2(2) this le] 2 ne r' loop show ?thesis
          by (simp add: ref_run.simps option.map_comp o_def st'_def append_section)
      next
        case 3
        have lt: "dataPos st' < length data \<longleftrightarrow> d' \<noteq> []"
          using arg_cong [OF d', of length] by (cases d') auto
        have "hint_loop hint data st' = Some (if d' = [] then Some (hint_result st') else None)"
          using 3 rest(2) lt by (subst hint_loop.simps) (simp add: hint_step_def st'_def)
        with 3 ne r loop show ?thesis by (simp add: ref_run.simps st'_def)
      qed
    qed
  qed
qed

lemma applyDisplayHint_ref_run:
  assumes "parse_hint hint 0 = Some ss" and "hint \<noteq> []" "data \<noteq> []" "length data < 2 ^ 63"
  shows "applyDisplayHint hint data = Some (ref_run ss data)"
proof -
  have "ss \<noteq> []"
    using assms(1,2) by (subst (asm) parse_hint.simps) (auto split: option.splits)
  with assms(1,2) have "pending_specs hint hint_init ss" by (simp add: pending_specs_def hint_init_def)
  from hint_loop_ref [OF this _ assms(4)] assms(2,3) show ?thesis
    by (simp add: applyDisplayHint_def hint_init_def option.map_id0 [unfolded id_def] flip: append_Nil)
      (simp add: map_option_case split: option.split)
qed


section \<open>The hints of the standard MIBs\<close>

text \<open>A single specification without star or terminator cuts the data into equal pieces.\<close>

function pieces :: "nat \<Rightarrow> bytes \<Rightarrow> bytes list" where
  "pieces n d = (if d = [] then [] else if n = 0 then [d] else take n d # pieces n (drop n d))"
  by pat_completeness auto
termination
  by (relation "measure (\<lambda>(n, d). length d)") auto

declare pieces.simps [simp del]

lemma pieces_Nil [simp]: "pieces n [] = []"
  by (simp add: pieces.simps)

lemma pieces_nonempty: "d \<noteq> [] \<Longrightarrow> pieces n d \<noteq> []"
  by (subst pieces.simps) simp

lemma pieces_1: "pieces (Suc 0) d = map (\<lambda>b. [b]) d"
  by (induction d) (simp_all add: pieces.simps)

lemma ref_run_no_data [simp]: "ref_run ss [] = Some []"
  by (cases ss) (simp_all add: ref_run.simps)

lemma ref_run_single:
  assumes "\<not> starPrefix s" "spec_term s = None" "0 < spec_take s"
    and total: "\<And>c. c \<in> set (pieces (nat (spec_take s)) d) \<Longrightarrow> fmt_chunk (fmtChar s) c = Some (f c)"
  shows "ref_run [s] d =
    Some (join (opt_str (spec_sep s) True) (map f (pieces (nat (spec_take s)) d)))"
  using total
proof (induction "length d" arbitrary: d rule: less_induct)
  case (less d)
  let ?n = "nat (spec_take s)" let ?sep = "opt_str (spec_sep s) True"
  show ?case
  proof (cases "d = []")
    case True
    then show ?thesis by (simp add: ref_run.simps)
  next
    case False
    have n: "0 < ?n" using assms(3) by simp
    have p: "pieces ?n d = take ?n d # pieces ?n (drop ?n d)"
      using False n by (subst pieces.simps) simp
    have IH: "ref_run [s] (drop ?n d) = Some (join ?sep (map f (pieces ?n (drop ?n d))))"
      using less.prems p False n by (intro less.hyps) simp_all
    have f: "fmt_chunk (fmtChar s) (take ?n d) = Some (f (take ?n d))"
      using less.prems p by simp
    have r: "ref_spec s d =
        Some (drop ?n d, f (take ?n d) @ opt_str (spec_sep s) (drop ?n d \<noteq> []))"
      using assms(1,2) False f
      by (simp add: ref_spec_def Let_def opt_str_def del: drop_eq_Nil)
    show ?thesis
    proof (cases "drop ?n d = []")
      case True
      then show ?thesis using False r assms(3) p
        by (subst ref_run.simps) (simp add: IH consumes_def opt_str_def split: option.split)
    next
      case ne: False
      then show ?thesis using False r assms(3) p pieces_nonempty [OF ne, of ?n]
        by (subst ref_run.simps) (simp add: IH consumes_def join_Cons_eq del: drop_eq_Nil)
    qed
  qed
qed

definition hint_1x :: hint_spec where
  "hint_1x = \<lparr>starPrefix = False, spec_take = 1, fmtChar = CHR ''x'', spec_sep = Some CHR '':'', spec_term = None\<rparr>"

definition hint_255a :: hint_spec where
  "hint_255a = \<lparr>starPrefix = False, spec_take = 255, fmtChar = CHR ''a'', spec_sep = None, spec_term = None\<rparr>"

lemma parse_hint_1x: "parse_hint ''1x:'' 0 = Some [hint_1x]"
  by code_simp

lemma parse_hint_255a: "parse_hint ''255a'' 0 = Some [hint_255a]"
  by code_simp

lemma concat_pieces: "concat (pieces n d) = d"
proof (induction n d rule: pieces.induct)
  case (1 n d)
  then show ?case by (subst pieces.simps) auto
qed

lemma join_Nil: "join [] ws = concat ws"
  by (induction "[] :: string" ws rule: join.induct) auto

lemma concat_map_string_of_bytes: "concat (map string_of_bytes cs) = string_of_bytes (concat cs)"
  by (induction cs) (simp_all add: string_of_bytes_def)

lemma ref_run_1x: "ref_run [hint_1x] d = Some (join '':'' (map (\<lambda>b. writeHex [b]) d))"
  using ref_run_single [of hint_1x d writeHex]
  by (simp add: hint_1x_def fmt_chunk_def opt_str_def pieces_1 o_def)

lemma ref_run_255a: "ref_run [hint_255a] d = Some (string_of_bytes d)"
  using ref_run_single [of hint_255a d string_of_bytes]
  by (simp add: hint_255a_def fmt_chunk_def opt_str_def join_Nil concat_map_string_of_bytes
      concat_pieces)

text \<open>The hint of MAC addresses prints every byte in hexadecimal, with colons between the bytes.\<close>

lemma mac_display_hint:
  assumes "data \<noteq> []" "length data < 2 ^ 63"
  shows "applyDisplayHint ''1x:'' data = Some (Some (join '':'' (map (\<lambda>b. writeHex [b]) data)))"
  using applyDisplayHint_ref_run [OF parse_hint_1x _ assms] by (simp add: ref_run_1x)

end
