(* ===== verification/GoFloat.thy ===== *)
theory GoFloat
  imports Prelude
begin

text \<open>
  Go's \<open>float64\<close> (IEEE 754 binary64), as far as the source computes with it: conversion from
  integers, multiplication by a scale, addition of an offset, the test against zero and the
  conversion to \<open>int\<close>. A finite value is \<open>Num m e\<close>, standing for \<open>m * 2 ^ e\<close>, in a unique form
  (\<open>m\<close> odd, or \<open>m = 0\<close> and \<open>e = 0\<close>). Arithmetic is exact on mantissa and exponent and then
  rounded to 53 bits, to nearest, ties to even.
\<close>

datatype f64 = Num int int | NegZero | PosInf | NegInf | NaN

fun bit_len :: "nat \<Rightarrow> nat" where
  "bit_len n = (if n = 0 then 0 else Suc (bit_len (n div 2)))"

declare bit_len.simps [simp del]

text \<open>The unique form of \<open>m * 2 ^ e\<close>: trailing zero bits go to the exponent.\<close>

function strip :: "int \<Rightarrow> int \<Rightarrow> f64" where
  "strip m e = (if m = 0 then Num 0 0 else if even m then strip (m div 2) (e + 1) else Num m e)"
  by pat_completeness auto
termination
  by (relation "measure (\<lambda>(m, e). nat \<bar>m\<bar>)") auto

declare strip.simps [simp del]

text \<open>Division of a mantissa by \<open>2 ^ k\<close>, to nearest, ties to even.\<close>

definition rne :: "nat \<Rightarrow> nat \<Rightarrow> nat" where
  "rne m k = (let q = m div 2 ^ k; r = m mod 2 ^ k in
     if 2 ^ k < 2 * r \<or> (2 * r = 2 ^ k \<and> odd q) then q + 1 else q)"

text \<open>Rounding of \<open>m * 2 ^ e\<close> to binary64, with gradual underflow and overflow to infinity.\<close>

definition round64 :: "int \<Rightarrow> int \<Rightarrow> f64" where
  "round64 m e = (if m = 0 then Num 0 0 else
     let a = nat \<bar>m\<bar>;
         q = max (e + int (bit_len a) - 53) (- 1074);
         a' = (if q \<le> e then a else rne a (nat (q - e)));
         e' = (if q \<le> e then e else q)
     in if 1024 < int (bit_len a') + e' then (if 0 < m then PosInf else NegInf)
        else if a' = 0 then (if 0 < m then Num 0 0 else NegZero)
        else strip (sgn m * int a') e')"

text \<open>\<open>float64(i)\<close> for an integer.\<close>

definition f64_of_int :: "int \<Rightarrow> f64" where
  "f64_of_int i = round64 i 0"

definition f64_zero :: f64 where
  "f64_zero = Num 0 0"

definition f64_is_zero :: "f64 \<Rightarrow> bool" where
  "f64_is_zero x \<longleftrightarrow> x = Num 0 0 \<or> x = NegZero"

fun f64_neg :: "f64 \<Rightarrow> bool" where
  "f64_neg (Num m e) = (m < 0)"
| "f64_neg NegZero = True"
| "f64_neg NegInf = True"
| "f64_neg _ = False"

definition f64_inf :: "bool \<Rightarrow> f64" where
  "f64_inf neg = (if neg then NegInf else PosInf)"

definition f64_is_inf :: "f64 \<Rightarrow> bool" where
  "f64_is_inf x \<longleftrightarrow> x = PosInf \<or> x = NegInf"

fun f64_mant :: "f64 \<Rightarrow> int" where
  "f64_mant (Num m e) = m"
| "f64_mant _ = 0"

fun f64_exp :: "f64 \<Rightarrow> int" where
  "f64_exp (Num m e) = e"
| "f64_exp _ = 0"

definition f64_mult :: "f64 \<Rightarrow> f64 \<Rightarrow> f64" where
  "f64_mult x y =
     (if x = NaN \<or> y = NaN \<or> (f64_is_inf x \<and> f64_is_zero y) \<or> (f64_is_zero x \<and> f64_is_inf y) then NaN
      else if f64_is_inf x \<or> f64_is_inf y then f64_inf (f64_neg x \<noteq> f64_neg y)
      else if f64_is_zero x \<or> f64_is_zero y then (if f64_neg x \<noteq> f64_neg y then NegZero else Num 0 0)
      else round64 (f64_mant x * f64_mant y) (f64_exp x + f64_exp y))"

definition f64_add :: "f64 \<Rightarrow> f64 \<Rightarrow> f64" where
  "f64_add x y =
     (if x = NaN \<or> y = NaN \<or> (f64_is_inf x \<and> f64_is_inf y \<and> x \<noteq> y) then NaN
      else if f64_is_inf x then x
      else if f64_is_inf y then y
      else if x = NegZero \<and> y = NegZero then NegZero
      else let e = min (f64_exp x) (f64_exp y) in
        round64 (f64_mant x * 2 ^ nat (f64_exp x - e) + f64_mant y * 2 ^ nat (f64_exp y - e)) e)"

text \<open>
  \<open>int(x)\<close>: truncation towards zero. Outside the range of \<open>int\<close> (and for NaN and the
  infinities) Go leaves the result to the implementation; \<open>oob\<close> is that result.
\<close>

definition f64_to_int :: "(f64 \<Rightarrow> int) \<Rightarrow> f64 \<Rightarrow> int" where
  "f64_to_int oob x = (case x of
       Num m e \<Rightarrow>
         (let i = (if 0 \<le> e then m * 2 ^ nat e else sgn m * (\<bar>m\<bar> div 2 ^ nat (- e)))
          in if in_i64 i then i else oob x)
     | NegZero \<Rightarrow> 0
     | _ \<Rightarrow> oob x)"

text \<open>A float that is exactly the integer \<open>i\<close>.\<close>

definition f64_is_int :: "f64 \<Rightarrow> int \<Rightarrow> bool" where
  "f64_is_int x i \<longleftrightarrow> (\<exists>m e. x = Num m e \<and> 0 \<le> e \<and> m * 2 ^ nat e = i)"

lemma bit_len_bound: "n < 2 ^ k \<Longrightarrow> bit_len n \<le> k"
proof (induction n arbitrary: k rule: bit_len.induct)
  case (1 n)
  show ?case
  proof (cases "n = 0")
    case True
    then show ?thesis by (simp add: bit_len.simps)
  next
    case False
    with "1.prems" obtain j where j: "k = Suc j" by (cases k) simp_all
    with "1.prems" have "n div 2 < 2 ^ j" by auto
    with False "1.IH" j show ?thesis by (simp add: bit_len.simps [of n])
  qed
qed

lemma strip_value:
  assumes "0 \<le> e"
  shows "f64_is_int (strip m e) (m * 2 ^ nat e)"
  using assms
proof (induction m e rule: strip.induct)
  case (1 m e)
  show ?case
  proof (cases "m \<noteq> 0 \<and> even m")
    case True
    with 1 have "f64_is_int (strip (m div 2) (e + 1)) (m div 2 * 2 ^ nat (e + 1))" by simp
    moreover have "m div 2 * 2 ^ nat (e + 1) = m * 2 ^ nat e"
      using True "1.prems" by (auto simp: nat_add_distrib elim!: evenE)
    ultimately show ?thesis using True by (simp add: strip.simps [of m e])
  next
    case False
    with "1.prems" show ?thesis by (auto simp: strip.simps [of m e] f64_is_int_def)
  qed
qed

text \<open>Integers of at most 53 bits are represented exactly.\<close>

lemma f64_of_int_eq_strip:
  assumes "\<bar>i\<bar> < 2 ^ 53"
  shows "f64_of_int i = strip i 0"
proof (cases "i = 0")
  case True
  then show ?thesis by (simp add: f64_of_int_def round64_def strip.simps)
next
  case False
  from assms have "nat \<bar>i\<bar> < 2 ^ 53" by simp
  from bit_len_bound [OF this] have "bit_len (nat \<bar>i\<bar>) \<le> 53" .
  with False show ?thesis
    by (simp add: f64_of_int_def round64_def Let_def sgn_mult_abs)
qed

lemma f64_of_int_exact: "\<bar>i\<bar> < 2 ^ 53 \<Longrightarrow> f64_is_int (f64_of_int i) i"
  using strip_value [of 0 i] by (simp add: f64_of_int_eq_strip)

lemma f64_is_int_unique: "f64_is_int x i \<Longrightarrow> f64_is_int x j \<Longrightarrow> i = j"
  by (auto simp: f64_is_int_def)

lemma f64_to_int_exact: "f64_is_int x i \<Longrightarrow> in_i64 i \<Longrightarrow> f64_to_int oob x = i"
  by (auto simp: f64_is_int_def f64_to_int_def)

lemma f64_to_int_of_int: "\<bar>i\<bar> < 2 ^ 53 \<Longrightarrow> f64_to_int oob (f64_of_int i) = i"
  by (rule f64_to_int_exact [OF f64_of_int_exact]) (auto simp: in_i64_def)

end
