(* ===== verification/Config.thy ===== *)
theory Config
  imports GoStrings GoFloat
begin

text \<open>
  The data of \<open>config/config.go\<close>: the structs an exporter configuration is made of. A Go map
  is an association list whose keys are distinct; the order of the list stands for the order
  in which \<open>range\<close> visits the map, which Go leaves open, so a theorem over all lists covers
  every order. A nil pointer is \<open>None\<close>.
\<close>

text \<open>\<open>map[int]string\<close>.\<close>

type_synonym enum_values = "(int \<times> string) list"

record Index =
  index_Labelname :: string
  index_Type :: string
  index_FixedSize :: int
  index_Implied :: bool
  index_EnumValues :: enum_values

record Lookup =
  lookup_Labels :: "string list"
  lookup_Labelname :: string
  lookup_Oid :: string
  lookup_Type :: string
  lookup_DisplayHint :: string
  lookup_EnumValues :: enum_values

text \<open>\<open>Regexp\<close> wraps a pointer that stays nil when the configuration omits the expression.\<close>

record RegexpExtract =
  extract_Value :: string
  extract_Regex :: "string option"

record Metric =
  metric_Name :: string
  metric_Oid :: string
  metric_Type :: string
  metric_Help :: string
  metric_Indexes :: "Index list"
  metric_Lookups :: "Lookup list"
  metric_RegexpExtracts :: "(string \<times> RegexpExtract list) list"
  metric_DateTimePattern :: string
  metric_EnumValues :: enum_values
  metric_Offset :: f64
  metric_Scale :: f64
  metric_DisplayHint :: string

text \<open>\<open>Retries\<close> is a pointer, \<open>Timeout\<close> a number of nanoseconds.\<close>

record WalkParams =
  MaxRepetitions :: "32 word"
  Retries :: "int option"
  Timeout :: int
  UseUnconnectedUDPSocket :: bool
  AllowNonIncreasingOIDs :: bool

record StaticFilter =
  static_Targets :: "string list"
  static_Indices :: "string list"

record DynamicFilter =
  filter_Oid :: string
  filter_Targets :: "string list"
  filter_Values :: "string list"

record Filters =
  filters_Static :: "StaticFilter list"
  filters_Dynamic :: "DynamicFilter list"

record Module =
  module_Walk :: "string list"
  module_Get :: "string list"
  module_Metrics :: "Metric list"
  module_WalkParams :: WalkParams
  module_Filters :: "DynamicFilter list"

text \<open>\<open>Secret\<close> is a named string type; its values are strings here.\<close>

type_synonym Secret = string

record Auth =
  Community :: Secret
  SecurityLevel :: string
  Username :: string
  Password :: Secret
  AuthProtocol :: string
  PrivProtocol :: string
  PrivPassword :: Secret
  ContextName :: string
  auth_Version :: int

record Config =
  Auths :: "(string \<times> Auth option) list"
  Modules :: "(string \<times> Module option) list"
  config_Version :: int

section \<open>Defaults\<close>

definition defaultRetries :: int where
  "defaultRetries = 3"

definition DefaultAuth :: Auth where
  "DefaultAuth = \<lparr>Community = ''public'', SecurityLevel = ''noAuthNoPriv'', Username = [],
     Password = [], AuthProtocol = ''MD5'', PrivProtocol = ''DES'', PrivPassword = [],
     ContextName = [], auth_Version = 2\<rparr>"

definition DefaultWalkParams :: WalkParams where
  "DefaultWalkParams = \<lparr>MaxRepetitions = 25, Retries = Some defaultRetries, Timeout = 5 * 10 ^ 9,
     UseUnconnectedUDPSocket = False, AllowNonIncreasingOIDs = False\<rparr>"

definition DefaultModule :: Module where
  "DefaultModule = \<lparr>module_Walk = [], module_Get = [], module_Metrics = [],
     module_WalkParams = DefaultWalkParams, module_Filters = []\<rparr>"

definition DefaultRegexpExtract :: RegexpExtract where
  "DefaultRegexpExtract = \<lparr>extract_Value = ''$1'', extract_Regex = None\<rparr>"

end
