(* ===== verification/MibTree.thy ===== *)
theory MibTree
  imports GoStrings Config "HOL-Library.AList" "HOL-Library.Multiset"
begin

text \<open>
  The MIB tree of the generator (\<open>generator/net_snmp.go\<close>): its nodes, how they are built from
  the tree of the net-snmp library, and deep copies. The code keeps pointers to nodes in maps
  and changes nodes through them, so nodes live in a heap: an address is a pointer, a shape
  is the tree of \<open>Children\<close> pointers, which does not change once it is built. The C tree is the
  input. Shown: the OIDs of the tree are those of the paths, addresses are never shared, and
  a copy is equal to the original and separate from it.
\<close>

section \<open>Nodes\<close>

record Node =
  n_Oid :: string
  n_subid :: int
  n_Module :: string
  n_Label :: string
  n_Augments :: string
  n_Description :: string
  n_Type :: string
  n_Hint :: string
  n_TextualConvention :: string
  n_FixedSize :: int
  n_Units :: string
  n_Access :: string
  n_EnumValues :: enum_values
  n_Indexes :: "string list"
  n_ImpliedIndex :: bool

type_synonym addr = nat
type_synonym heap = "addr \<Rightarrow> Node"

datatype shape = Shape (root: addr) (children: "shape list")

text \<open>The nodes in the order \<open>walkNode\<close> visits them, each with its children.\<close>

fun subtrees :: "shape \<Rightarrow> shape list" where
  "subtrees (Shape a cs) = Shape a cs # concat (map subtrees cs)"

definition addrs :: "shape \<Rightarrow> addr list" where
  "addrs t = map root (subtrees t)"

lemma addrs_Shape: "addrs (Shape a cs) = a # concat (map addrs cs)"
  by (simp add: addrs_def [abs_def] map_concat o_def)

text \<open>\<open>walkNode\<close> with a function that may change a state, the heap or what it captures.\<close>

fun walkNode :: "(shape \<Rightarrow> 's \<Rightarrow> 's) \<Rightarrow> shape \<Rightarrow> 's \<Rightarrow> 's" where
  "walkNode f (Shape a cs) s = fold (walkNode f) cs (f (Shape a cs) s)"

lemma walkNode_subtrees: "walkNode f t s = fold f (subtrees t) s"
proof (induction t arbitrary: s)
  case (Shape a cs)
  have "fold (walkNode f) ts s = fold f (concat (map subtrees ts)) s" if "set ts \<subseteq> set cs" for ts s
    using that by (induction ts arbitrary: s) (simp_all add: Shape.IH)
  then show ?case by simp
qed

section \<open>The C tree\<close>

text \<open>
  A node of net-snmp as the code reads it, its textual convention looked up: \<open>c_ranges\<close> is the list
  of ranges \<open>(low, high)\<close> of \<open>tclist[tc_index]\<close>, or \<open>None\<close> when the index is not one of the table.
\<close>

record c_node =
  c_subid :: "64 word"
  c_module :: "string option"
  c_label :: string
  c_type :: int
  c_access :: int
  c_augments :: string
  c_description :: string
  c_hint :: string
  c_tc :: string
  c_ranges :: "(int \<times> int) list option"
  c_units :: string
  c_enums :: "(int \<times> string) list"
  c_indexes :: "(string \<times> bool) list"

datatype ctree = CTree c_node "ctree list"

definition netSnmptypeMap :: "(int \<times> string) list" where
  "netSnmptypeMap =
    [(0, ''OTHER''), (1, ''OBJID''), (2, ''OCTETSTR''), (3, ''INTEGER''), (4, ''NETADDR''),
     (5, ''IPADDR''), (6, ''COUNTER''), (7, ''GAUGE''), (8, ''TIMETICKS''), (9, ''OPAQUE''),
     (10, ''NULL''), (11, ''COUNTER64''), (12, ''BITSTRING''), (13, ''NSAPADDRESS''),
     (14, ''UINTEGER''), (15, ''UNSIGNED32''), (16, ''INTEGER32''), (20, ''TRAPTYPE''),
     (21, ''NOTIFTYPE''), (22, ''OBJGROUP''), (23, ''NOTIFGROUP''), (24, ''MODID''),
     (25, ''AGENTCAP''), (26, ''MODCOMP''), (27, ''OBJIDENTITY'')]"

definition netSnmpaccessMap :: "(int \<times> string) list" where
  "netSnmpaccessMap =
    [(18, ''ACCESS_READONLY''), (19, ''ACCESS_READWRITE''), (20, ''ACCESS_WRITEONLY''),
     (21, ''ACCESS_NOACCESS''), (67, ''ACCESS_NOTIFY''), (48, ''ACCESS_CREATE'')]"

definition zero_Node :: Node where
  "zero_Node = \<lparr>n_Oid = [], n_subid = 0, n_Module = [], n_Label = [], n_Augments = [],
     n_Description = [], n_Type = [], n_Hint = [], n_TextualConvention = [], n_FixedSize = 0,
     n_Units = [], n_Access = [], n_EnumValues = [], n_Indexes = [], n_ImpliedIndex = False\<rparr>"

definition name_of :: "(int \<times> string) list \<Rightarrow> int \<Rightarrow> string" where
  "name_of m i = (case map_of m i of Some s \<Rightarrow> s | None \<Rightarrow> ''unknown'')"

text \<open>One range with only one possible value.\<close>

definition get_tc_fixed_size :: "(int \<times> int) list option \<Rightarrow> int" where
  "get_tc_fixed_size ranges = (case ranges of
      None \<Rightarrow> 0
    | Some rs \<Rightarrow> (case rs of [(low, high)] \<Rightarrow> if low \<noteq> high then 0 else low | _ \<Rightarrow> 0))"

text \<open>The fields set before the children are built.\<close>

definition node_of :: "c_node \<Rightarrow> string \<Rightarrow> Node" where
  "node_of t oid = zero_Node\<lparr>
     n_subid := sint (c_subid t),
     n_Oid := (if oid \<noteq> [] then oid @ ''.'' @ itoa (uint (c_subid t)) else itoa (uint (c_subid t))),
     n_Module := (case c_module t of Some m \<Rightarrow> m | None \<Rightarrow> []),
     n_Label := c_label t,
     n_Type := name_of netSnmptypeMap (c_type t),
     n_Access := name_of netSnmpaccessMap (c_access t),
     n_Augments := c_augments t, n_Description := c_description t, n_Hint := c_hint t,
     n_TextualConvention := c_tc t, n_FixedSize := get_tc_fixed_size (c_ranges t), n_Units := c_units t,
     n_EnumValues := fold (\<lambda>(v, l). AList.update v l) (c_enums t) []\<rparr>"

text \<open>The fields set after them, which a node without children does not reach.\<close>

definition set_indexes :: "c_node \<Rightarrow> Node \<Rightarrow> Node" where
  "set_indexes t n = n\<lparr>n_Indexes := map fst (c_indexes t),
     n_ImpliedIndex := list_ex snd (c_indexes t) \<or> n_ImpliedIndex n\<rparr>"

text \<open>
  \<open>buildMIBTree\<close> for a node that is allocated at \<open>a\<close>; children are allocated from \<open>nx\<close> on, put
  in front of each other and then sorted by their last component. (\<open>sort.Slice\<close> leaves the order
  of equal components open; the peers of a C tree have different ones.)
\<close>

fun buildMIBTree :: "ctree \<Rightarrow> addr \<Rightarrow> string \<Rightarrow> addr \<times> heap \<Rightarrow> shape \<times> addr \<times> heap"
  and buildChildren :: "ctree list \<Rightarrow> string \<Rightarrow> shape list \<Rightarrow> addr \<times> heap \<Rightarrow> shape list \<times> addr \<times> heap" where
  "buildMIBTree (CTree t cs) a oid (nx, h) =
     (let h1 = h(a := node_of t oid) in
      if cs = [] then (Shape a [], nx, h1)
      else (case buildChildren cs (n_Oid (h1 a)) [] (nx, h1) of
          (ts, nx', h2) \<Rightarrow>
            (Shape a (sort_key (\<lambda>s. n_subid (h2 (root s))) ts), nx', h2(a := set_indexes t (h2 a)))))"
| "buildChildren [] oid acc s = (acc, s)"
| "buildChildren (c # cs) oid acc (nx, h) =
     (case buildMIBTree c nx oid (Suc nx, h) of
        (t, s) \<Rightarrow> buildChildren cs oid (t # acc) s)"

definition getMIBTree :: "ctree \<Rightarrow> shape \<times> addr \<times> heap" where
  "getMIBTree tree = buildMIBTree tree 0 [] (1, \<lambda>_. zero_Node)"

section \<open>The tree that is built\<close>

text \<open>The data of a tree, without its addresses.\<close>

datatype node_tree = Data Node "node_tree list"

fun tree_data :: "heap \<Rightarrow> shape \<Rightarrow> node_tree" where
  "tree_data h (Shape a cs) = Data (h a) (map (tree_data h) cs)"

lemma tree_data_cong:
  "(\<And>a. a \<in> set (addrs t) \<Longrightarrow> h a = h' a) \<Longrightarrow> tree_data h t = tree_data h' t"
proof (induction t)
  case (Shape a cs)
  then show ?case by (auto simp: addrs_Shape)
qed

fun data_node :: "node_tree \<Rightarrow> Node" where
  "data_node (Data n ds) = n"

lemma data_node_tree_data [simp]: "data_node (tree_data h t) = h (root t)"
  by (cases t) simp

text \<open>The reference: the Go tree as a function of the C tree, without a heap.\<close>

fun mib_data :: "string \<Rightarrow> ctree \<Rightarrow> node_tree" where
  "mib_data oid (CTree t cs) =
     Data (if cs = [] then node_of t oid else set_indexes t (node_of t oid))
       (sort_key (\<lambda>d. n_subid (data_node d)) (rev (map (mib_data (n_Oid (node_of t oid))) cs)))"

lemma mset_concat_map: "mset xs = mset ys \<Longrightarrow> mset (concat (map f xs)) = mset (concat (map f ys))"
  by (metis mset_concat mset_map sum_mset_sum_list map_map)

lemma map_sort_key:
  assumes "\<And>x. x \<in> set xs \<Longrightarrow> k (f x) = k' x"
  shows "sort_key k (map f xs) = map f (sort_key k' xs)"
proof -
  have ins: "insort_key k (f x) (map f ys) = map f (insort_key k' x ys)"
    if "k (f x) = k' x" "\<And>y. y \<in> set ys \<Longrightarrow> k (f y) = k' y" for x ys
    using that by (induction ys) auto
  show ?thesis using assms by (induction xs) (auto intro!: ins)
qed

text \<open>\<open>buildMIBTree\<close> computes the reference, in fresh nodes that nothing else shares.\<close>

lemma buildMIBTree_spec:
  "buildMIBTree ct a oid (nx, h) = (t, nx', h') \<Longrightarrow> a < nx \<Longrightarrow>
   nx \<le> nx' \<and> root t = a \<and> (\<forall>b < nx. b \<noteq> a \<longrightarrow> h' b = h b) \<and>
   set (addrs t) = insert a {nx..<nx'} \<and> distinct (addrs t) \<and> tree_data h' t = mib_data oid ct"
  "buildChildren cs oid acc (nx, h) = (ts, nx', h') \<Longrightarrow> \<forall>t \<in> set acc. \<forall>b \<in> set (addrs t). b < nx \<Longrightarrow>
   nx \<le> nx' \<and> (\<forall>b < nx. h' b = h b) \<and>
   (\<exists>new. ts = rev new @ acc \<and> set (concat (map addrs new)) = {nx..<nx'} \<and>
      distinct (concat (map addrs new)) \<and> map (tree_data h') new = map (mib_data oid) cs)"
proof (induction ct a oid "(nx, h)" and cs oid acc "(nx, h)"
    arbitrary: nx h t nx' h' and nx h ts nx' h' rule: buildMIBTree_buildChildren.induct)
  case (1 t0 cs a oid nx h)
  let ?n = "node_of t0 oid"
  show ?case
  proof (cases "cs = []")
    case True
    with 1(2,3) show ?thesis by (auto simp: Let_def addrs_Shape)
  next
    case False
    with 1(2) obtain ts h2 where b: "buildChildren cs (n_Oid ?n) [] (nx, h(a := ?n)) = (ts, nx', h2)"
      and t: "t = Shape a (sort_key (\<lambda>s. n_subid (h2 (root s))) ts)"
      and h': "h' = h2(a := set_indexes t0 (h2 a))"
      by (auto simp: Let_def split: prod.splits)
    from 1(1) [OF refl False, of ts nx' h2] b obtain new where le: "nx \<le> nx'"
      and old: "\<forall>c < nx. h2 c = (h(a := ?n)) c" and ts: "ts = rev new"
      and ad: "set (concat (map addrs new)) = {nx..<nx'}" "distinct (concat (map addrs new))"
      and dt: "map (tree_data h2) new = map (mib_data (n_Oid ?n)) cs"
      by auto
    let ?ss = "sort_key (\<lambda>s. n_subid (h2 (root s))) ts"
    have ms: "mset (concat (map addrs ?ss)) = mset (concat (map addrs new))"
      by (rule mset_concat_map) (simp add: ts)
    have st: "set (concat (map addrs ?ss)) = {nx..<nx'}" and ds: "distinct (concat (map addrs ?ss))"
      using ad mset_eq_setD [OF ms] mset_eq_imp_distinct_iff [OF ms] by simp_all
    have fr: "b \<noteq> a" if "c \<in> set ?ss" "b \<in> set (addrs c)" for b c
    proof -
      have "b \<in> set (concat (map addrs ?ss))" using that by auto
      then show ?thesis unfolding st using 1(3) by auto
    qed
    have "map (tree_data h') ?ss = map (tree_data h2) ?ss"
      using fr by (auto intro!: tree_data_cong simp: h')
    also have "\<dots> = sort_key (\<lambda>d. n_subid (data_node d)) (map (tree_data h2) ts)"
      by (rule map_sort_key [symmetric]) simp
    also have "map (tree_data h2) ts = rev (map (mib_data (n_Oid ?n)) cs)"
      by (simp add: ts rev_map [symmetric] dt)
    finally have ch: "map (tree_data h') ?ss =
      sort_key (\<lambda>d. n_subid (data_node d)) (rev (map (mib_data (n_Oid ?n)) cs))" .
    have "h' a = set_indexes t0 ?n" using old 1(3) by (simp add: h')
    with ch False have "tree_data h' t = mib_data oid (CTree t0 cs)" by (simp add: t)
    moreover have "set (addrs t) = insert a {nx..<nx'}" "distinct (addrs t)"
      using st ds 1(3) by (auto simp: t addrs_Shape)
    moreover have "root t = a" "\<forall>b < nx. b \<noteq> a \<longrightarrow> h' b = h b" using old by (simp_all add: t h')
    ultimately show ?thesis using le by blast
  qed
next
  case (2 oid acc)
  then show ?case by auto
next
  case (3 c cs oid acc nx h)
  then obtain t1 n1 h1 where b: "buildMIBTree c nx oid (Suc nx, h) = (t1, n1, h1)"
    and bc: "buildChildren cs oid (t1 # acc) (n1, h1) = (ts, nx', h')"
    by (auto split: prod.splits)
  from 3(1) [OF b] have A: "Suc nx \<le> n1" "\<forall>b < Suc nx. b \<noteq> nx \<longrightarrow> h1 b = h b"
    "set (addrs t1) = insert nx {Suc nx..<n1}" "distinct (addrs t1)" "tree_data h1 t1 = mib_data oid c"
    by auto
  have "\<forall>t \<in> set (t1 # acc). \<forall>b \<in> set (addrs t). b < n1"
    using A(1,3) 3(4) by fastforce
  from 3(2) [OF b [symmetric] bc this] obtain new where B: "n1 \<le> nx'" "\<forall>b < n1. h' b = h1 b"
    "ts = rev new @ t1 # acc" "set (concat (map addrs new)) = {n1..<nx'}"
    "distinct (concat (map addrs new))" "map (tree_data h') new = map (mib_data oid) cs" by blast
  have "tree_data h' t1 = mib_data oid c"
    using A(1,3,5) B(2) by (subst A(5) [symmetric]) (rule tree_data_cong, auto)
  with A B show ?case by (intro conjI exI [of _ "t1 # new"]) auto
qed

text \<open>
  \<open>getMIBTree\<close> builds the reference. The peers of a C tree have different last components; then
  the OID of a node is that of its parent and one component more, and siblings have different OIDs.
\<close>

lemma getMIBTree_spec:
  assumes "getMIBTree ct = (t, nx, h)"
  shows "tree_data h t = mib_data [] ct" "set (addrs t) = {0..<nx}" "distinct (addrs t)"
proof -
  have s: "1 \<le> nx \<and> root t = 0 \<and> (\<forall>b < 1. b \<noteq> 0 \<longrightarrow> h b = zero_Node) \<and>
      set (addrs t) = insert 0 {1..<nx} \<and> distinct (addrs t) \<and> tree_data h t = mib_data [] ct"
    by (rule buildMIBTree_spec(1) [OF assms [unfolded getMIBTree_def]]) (rule zero_less_one)
  from s show "tree_data h t = mib_data [] ct" by (elim conjE)
  from s show "distinct (addrs t)" by (elim conjE)
  have "insert 0 {1..<nx} = {0..<nx}" if "1 \<le> nx" using that by auto
  with s show "set (addrs t) = {0..<nx}" by (elim conjE) (simp only:)
qed

definition child_oid :: "string \<Rightarrow> string \<Rightarrow> bool" where
  "child_oid p c \<longleftrightarrow> hasPrefix c (p @ ''.'') \<and> drop (Suc (length p)) c \<noteq> [] \<and>
     CHR ''.'' \<notin> set (drop (Suc (length p)) c)"

lemma child_oid_iff: "child_oid p c \<longleftrightarrow> (\<exists>s. c = p @ ''.'' @ s \<and> s \<noteq> [] \<and> CHR ''.'' \<notin> set s)"
  by (auto simp: child_oid_def hasPrefix_iff)

abbreviation data_oid :: "node_tree \<Rightarrow> string" where
  "data_oid d \<equiv> n_Oid (data_node d)"

fun tree_ok :: "node_tree \<Rightarrow> bool" where
  "tree_ok (Data n ds) \<longleftrightarrow> list_all (\<lambda>d. child_oid (n_Oid n) (data_oid d)) ds \<and>
     distinct (map data_oid ds) \<and> list_all tree_ok ds"

fun peers_ok :: "ctree \<Rightarrow> bool" where
  "peers_ok (CTree t cs) \<longleftrightarrow> distinct (map (\<lambda>c. case c of CTree u _ \<Rightarrow> c_subid u) cs) \<and>
     list_all peers_ok cs"

lemma itoa_uint_inject: "itoa (uint (v :: 64 word)) = itoa (uint w) \<longleftrightarrow> v = w"
proof
  assume "itoa (uint v) = itoa (uint w)"
  then have "parseUint_loop 0 (formatUint 10 (unat v)) = parseUint_loop 0 (formatUint 10 (unat w))"
    by (simp add: itoa_def)
  moreover have "unat v < 2 ^ 64" "unat w < 2 ^ 64"
    using unsigned_less [of v, where ?'a = nat] unsigned_less [of w, where ?'a = nat] by simp_all
  ultimately have "(unat v, None :: num_error option) = (unat w, None)"
    by (simp only: parseUint_formatUint)
  then show "v = w" by (simp only: prod.inject word_unat_eq_iff)
qed simp

lemma oid_node_of: "n_Oid (node_of t oid) = (if oid = [] then [] else oid @ ''.'') @ itoa (uint (c_subid t))"
  by (simp add: node_of_def)

lemma oid_mib_data: "data_oid (mib_data oid (CTree t cs)) = n_Oid (node_of t oid)"
  by (simp add: set_indexes_def)

lemma mib_data_ok: "peers_ok ct \<Longrightarrow> tree_ok (mib_data oid ct)"
proof (induction ct arbitrary: oid)
  case (CTree t cs)
  let ?o = "n_Oid (node_of t oid)"
  let ?sub = "\<lambda>c. case c of CTree u _ \<Rightarrow> c_subid u"
  have ne: "?o \<noteq> []" by (simp add: oid_node_of)
  have oid: "data_oid (mib_data ?o c) = ?o @ ''.'' @ itoa (uint (?sub c))" for c
    using ne by (cases c) (simp add: oid_mib_data oid_node_of [of _ ?o] del: mib_data.simps)
  then have ch: "child_oid ?o (data_oid (mib_data ?o c))" for c
    by (simp add: child_oid_iff itoa_no_dot)
  have "distinct (map ?sub cs)" using CTree.prems by simp
  then have "distinct (map (\<lambda>c. data_oid (mib_data ?o c)) cs)"
    by (simp add: distinct_map oid inj_on_def itoa_uint_inject)
  then have "distinct (map data_oid (rev (map (mib_data ?o) cs)))"
    by (simp add: rev_map [symmetric] o_def)
  moreover have "mset (map data_oid (sort_key (\<lambda>d. n_subid (data_node d)) xs)) = mset (map data_oid xs)" for xs
    by simp
  ultimately have "distinct (map data_oid (sort_key (\<lambda>d. n_subid (data_node d)) (rev (map (mib_data ?o) cs))))"
    by (metis mset_eq_imp_distinct_iff)
  moreover have "n_Oid (set_indexes t (node_of t oid)) = ?o" by (simp add: set_indexes_def)
  moreover have "tree_ok (mib_data ?o c)" if "c \<in> set cs" for c
    using CTree that by (simp add: list_all_iff)
  ultimately show ?case using ch by (auto simp: list_all_iff)
qed

section \<open>Deep copies\<close>

text \<open>\<open>Copy\<close>: the copy of a node is allocated at \<open>a\<close>, those of its children from \<open>nx\<close> on. The
  slice of indexes and the map of enumeration values are values here.\<close>

fun Copy :: "shape \<Rightarrow> addr \<times> heap \<Rightarrow> shape \<times> addr \<times> heap"
  and CopyChildren :: "shape list \<Rightarrow> addr \<times> heap \<Rightarrow> shape list \<times> addr \<times> heap" where
  "Copy (Shape b cs) (nx, h) =
     (case CopyChildren cs (Suc nx, h(nx := h b)) of (ts, s) \<Rightarrow> (Shape nx ts, s))"
| "CopyChildren [] s = ([], s)"
| "CopyChildren (c # cs) s =
     (case Copy c s of (t, s1) \<Rightarrow> (case CopyChildren cs s1 of (ts, s2) \<Rightarrow> (t # ts, s2)))"

text \<open>A copy takes fresh addresses, changes no node that was there, and has the same data.\<close>

lemma Copy_spec:
  "Copy t (nx, h) = (t', nx', h') \<Longrightarrow> \<forall>a \<in> set (addrs t). a < nx \<Longrightarrow>
   nx < nx' \<and> (\<forall>a < nx. h' a = h a) \<and> set (addrs t') = {nx..<nx'} \<and> distinct (addrs t') \<and>
   tree_data h' t' = tree_data h t"
  "CopyChildren cs (nx, h) = (ts, nx', h') \<Longrightarrow> \<forall>a \<in> set (concat (map addrs cs)). a < nx \<Longrightarrow>
   nx \<le> nx' \<and> (\<forall>a < nx. h' a = h a) \<and> set (concat (map addrs ts)) = {nx..<nx'} \<and>
   distinct (concat (map addrs ts)) \<and> map (tree_data h') ts = map (tree_data h) cs"
proof (induction t "(nx, h)" and cs "(nx, h)" arbitrary: nx h t' nx' h' and nx h ts nx' h'
    rule: Copy_CopyChildren.induct)
  case (1 b cs nx h)
  then obtain ts where c: "CopyChildren cs (Suc nx, h(nx := h b)) = (ts, nx', h')"
    and t': "t' = Shape nx ts" by (auto split: prod.splits)
  from 1(3) have lt: "b < nx" "\<forall>a \<in> set (concat (map addrs cs)). a < nx"
    by (auto simp: addrs_Shape)
  then have lt': "\<forall>a \<in> set (concat (map addrs cs)). a < Suc nx" by (auto intro: less_SucI)
  from 1(1) [OF c lt'] have IH: "Suc nx \<le> nx'" "\<forall>a < Suc nx. h' a = (h(nx := h b)) a"
    "set (concat (map addrs ts)) = {Suc nx..<nx'}" "distinct (concat (map addrs ts))"
    "map (tree_data h') ts = map (tree_data (h(nx := h b))) cs" by blast+
  have "tree_data (h(nx := h b)) c = tree_data h c" if "c \<in> set cs" for c
    using lt(2) that by (intro tree_data_cong) fastforce
  then have "map (tree_data h') ts = map (tree_data h) cs" using IH(5) by simp
  moreover have "h' nx = h b" using IH(2) by simp
  ultimately show ?case using IH lt(1) t' by (auto simp: addrs_Shape)
next
  case (2 s)
  then show ?case by simp
next
  case (3 c cs nx h)
  then obtain t n1 h1 ts' where c: "Copy c (nx, h) = (t, n1, h1)"
    and cc: "CopyChildren cs (n1, h1) = (ts', nx', h')" and ts: "ts = t # ts'"
    by (auto split: prod.splits)
  from 3(4) have lt: "\<forall>a \<in> set (addrs c). a < nx" "\<forall>a \<in> set (concat (map addrs cs)). a < nx"
    by auto
  from 3(1) [OF c lt(1)] have A: "nx < n1" "\<forall>a < nx. h1 a = h a" "set (addrs t) = {nx..<n1}"
    "distinct (addrs t)" "tree_data h1 t = tree_data h c" by blast+
  from lt(2) A(1) have "\<forall>a \<in> set (concat (map addrs cs)). a < n1" by (meson less_trans)
  from 3(2) [OF c [symmetric] cc this] have B: "n1 \<le> nx'" "\<forall>a < n1. h' a = h1 a"
    "set (concat (map addrs ts')) = {n1..<nx'}" "distinct (concat (map addrs ts'))"
    "map (tree_data h') ts' = map (tree_data h1) cs" by blast+
  have "tree_data h1 d = tree_data h d" if "d \<in> set cs" for d
    using lt(2) A(2) that by (intro tree_data_cong) fastforce
  then have "map (tree_data h') ts' = map (tree_data h) cs" using B(5) by simp
  moreover have "tree_data h' t = tree_data h1 t"
    using A(3) B(2) by (intro tree_data_cong) auto
  ultimately show ?case using A B ts by (auto simp: ivl_disj_un)
qed

end
