(* ===== verification/OidCover.thy ===== *)
theory OidCover
  imports GoStrings "HOL-Library.List_Lexorder" "HOL-Library.Char_ord"
begin

text \<open>
  The order on OIDs that \<open>minimizeOids\<close> and \<open>searchNodeTree\<close> (\<open>generator/tree.go\<close>) go by: an OID
  covers the OIDs of its subtree. Go compares strings byte by byte, which is the order of
  \<open>List_Lexorder\<close> on \<open>Char_ord\<close>. Shown: in sorted order a subtree is contiguous, so the single pass
  of \<open>minimizeOids\<close> keeps exactly the OIDs that no other one covers.
\<close>

section \<open>Covering\<close>

definition covers :: "string \<Rightarrow> string \<Rightarrow> bool" where
  "covers p oid \<longleftrightarrow> hasPrefix (oid @ ''.'') (p @ ''.'')"

lemma covers_iff: "covers p oid \<longleftrightarrow> oid = p \<or> (\<exists>r. oid = p @ ''.'' @ r)"
proof
  assume "covers p oid"
  then obtain r where r: "oid @ ''.'' = p @ ''.'' @ r" by (auto simp: covers_def hasPrefix_iff)
  show "oid = p \<or> (\<exists>r. oid = p @ ''.'' @ r)"
  proof (cases r rule: rev_cases)
    case (snoc s c)
    with r have "oid = p @ ''.'' @ s" by (simp flip: append_assoc)
    then show ?thesis by blast
  qed (use r in simp)
qed (auto simp: covers_def hasPrefix_iff)

lemma covers_refl [simp]: "covers p p"
  by (simp add: covers_def)

lemma covers_trans: "covers p q \<Longrightarrow> covers q r \<Longrightarrow> covers p r"
  unfolding covers_def by (rule hasPrefix_trans)

lemma covers_length: "covers p q \<Longrightarrow> length p \<le> length q"
  by (auto simp: covers_iff)

lemma covers_antisym: "covers p q \<Longrightarrow> covers q p \<Longrightarrow> p = q"
  by (auto simp: covers_iff)

lemma covers_linear: "covers a c \<Longrightarrow> covers b c \<Longrightarrow> covers a b \<or> covers b a"
  unfolding covers_def hasPrefix_iff by (metis append_eq_append_conv2)

text \<open>
  The contract of subtrees: an order in which what is above something is a chain. The generator
  relies on it, and on a reduction that keeps everything covered, whenever it removes OIDs.
\<close>

locale subtrees_order =
  fixes cov :: "'a \<Rightarrow> 'a \<Rightarrow> bool"
  assumes cov_refl: "cov p p"
    and cov_trans: "cov p q \<Longrightarrow> cov q r \<Longrightarrow> cov p r"
    and cov_chain: "cov p r \<Longrightarrow> cov q r \<Longrightarrow> cov p q \<or> cov q p"
begin

text \<open>What meets a subtree meets every subtree around it.\<close>

lemma meets_above: "cov y k \<Longrightarrow> cov k z \<or> cov z k \<Longrightarrow> cov y z \<or> cov z y"
  using cov_trans cov_chain by blast

end

locale subtrees_reduction = subtrees_order +
  fixes reduce :: "'a list \<Rightarrow> 'a list"
  assumes reduce_subset: "set (reduce xs) \<subseteq> set xs"
    and reduce_covering: "z \<in> set xs \<Longrightarrow> \<exists>y \<in> set (reduce xs). cov y z"
begin

text \<open>Something that met an element before the reduction meets one after it.\<close>

lemma reduce_meets:
  assumes "k \<in> set xs" and "cov k z \<or> cov z k"
  shows "\<exists>y \<in> set (reduce xs). cov y z \<or> cov z y"
  using reduce_covering [OF assms(1)] meets_above assms(2) by blast

lemma reduce_all: "list_all P xs \<Longrightarrow> list_all P (reduce xs)"
  using reduce_subset by (auto simp: list_all_iff)

end

interpretation oids: subtrees_order covers
  by unfold_locales (rule covers_refl, erule (1) covers_trans, erule (1) covers_linear)

section \<open>Covering and the order of strings\<close>

lemma le_append: "(s :: string) \<le> s @ t"
  by (induction s) simp_all

lemma covers_le: "covers p q \<Longrightarrow> p \<le> q"
  by (auto simp: covers_iff le_append)

lemma between_prefix: "a \<le> b \<Longrightarrow> b \<le> a @ s \<Longrightarrow> \<exists>x. b = a @ x \<and> x \<le> (s :: string)"
proof (induction a arbitrary: b)
  case (Cons c a)
  from Cons.prems(1) obtain d b' where b: "b = d # b'" by (cases b) simp_all
  with Cons.prems have "c = d" "a \<le> b'" "b' \<le> a @ s" by auto
  with Cons.IH b show ?case by auto
qed simp

text \<open>Strings whose characters all are \<open>.\<close> or above it, as those of OIDs are.\<close>

definition oid_chars :: "string \<Rightarrow> bool" where
  "oid_chars s \<longleftrightarrow> list_all (\<lambda>c. CHR ''.'' \<le> c) s"

lemma covers_convex:
  assumes "covers a c" and "a \<le> b" "b \<le> c" and "oid_chars b"
  shows "covers a b"
proof (cases "c = a")
  case True
  with assms(2,3) show ?thesis by (simp add: antisym)
next
  case False
  with assms(1) obtain r where "c = a @ CHR ''.'' # r" by (auto simp: covers_iff)
  with assms(2,3) obtain x where x: "b = a @ x" "x \<le> CHR ''.'' # r"
    using between_prefix by blast
  show ?thesis
  proof (cases x)
    case (Cons d y)
    with x assms(4) have "d = CHR ''.''" by (auto simp: oid_chars_def)
    with Cons x(1) show ?thesis by (auto simp: covers_iff)
  qed (use x in simp)
qed

section \<open>Minimization\<close>

fun minimize_loop :: "string \<Rightarrow> string list \<Rightarrow> string list" where
  "minimize_loop prevOid [] = []"
| "minimize_loop prevOid (oid # oids) =
     (if \<not> hasPrefix (oid @ ''.'') prevOid \<or> prevOid = []
      then oid # minimize_loop (oid @ ''.'') oids
      else minimize_loop prevOid oids)"

definition minimizeOids :: "string list \<Rightarrow> string list" where
  "minimizeOids oids = minimize_loop [] (sort oids)"

text \<open>The reference: the OIDs that only they themselves cover.\<close>

definition minimal_oids :: "string set \<Rightarrow> string set" where
  "minimal_oids A = {z \<in> A. \<forall>y \<in> A. covers y z \<longrightarrow> y = z}"

lemma minimal_oids_insert_first:
  assumes "\<forall>z \<in> A. x \<le> z"
  shows "minimal_oids (insert x A) = insert x {z \<in> minimal_oids A. \<not> covers x z}"
  using assms covers_le by (fastforce simp: minimal_oids_def)

lemma minimal_oids_covered:
  assumes "covers q x"
  shows "{z \<in> minimal_oids (insert x A). \<not> covers q z} = {z \<in> minimal_oids A. \<not> covers q z}"
  using assms covers_trans by (auto simp: minimal_oids_def)

lemma minimize_loop_set:
  assumes "sorted (q # oids)" and "list_all oid_chars oids"
  shows "set (minimize_loop (q @ ''.'') oids) = {z \<in> minimal_oids (set oids). \<not> covers q z}"
  using assms
proof (induction oids arbitrary: q)
  case Nil
  then show ?case by (simp add: minimal_oids_def)
next
  case (Cons x oids)
  show ?case
  proof (cases "covers q x")
    case True
    with Cons show ?thesis by (simp add: minimal_oids_covered flip: covers_def)
  next
    case False
    have "\<not> covers q z" if "z \<in> insert x {z \<in> minimal_oids (set oids). \<not> covers x z}" for z
      using that False covers_convex [of q z x] Cons.prems by (auto simp: minimal_oids_def)
    with False Cons show ?thesis
      by (auto simp: minimal_oids_insert_first simp flip: covers_def)
  qed
qed

lemma minimize_loop_sorted:
  "sorted (q # oids) \<Longrightarrow> sorted (minimize_loop (q @ ''.'') oids) \<and>
     set (minimize_loop (q @ ''.'') oids) \<subseteq> set oids - {q} \<and> distinct (minimize_loop (q @ ''.'') oids)"
proof (induction oids arbitrary: q)
  case (Cons x oids)
  have "q \<noteq> x" if "\<not> covers q x" using that by auto
  moreover have "q = x" if "q \<in> set oids" using that Cons.prems by (auto intro: antisym)
  ultimately show ?case using Cons.IH [of q] Cons.IH [of x] Cons.prems
    by (auto simp flip: covers_def)
qed simp

text \<open>\<open>minimizeOids\<close> in one pass over the sorted OIDs computes the reference.\<close>

lemma minimizeOids_minimal:
  assumes "list_all oid_chars oids"
  shows "minimizeOids oids = sorted_list_of_set (minimal_oids (set oids))"
proof (cases "sort oids")
  case Nil
  then have "oids = []" by (metis set_empty set_sort)
  then show ?thesis by (simp add: minimizeOids_def minimal_oids_def)
next
  case (Cons x xs)
  have s: "sorted (x # xs)" using Cons sorted_sort by metis
  have st: "set oids = insert x (set xs)" using Cons set_sort by (metis list.simps(15))
  have ch: "list_all oid_chars xs" using assms st by (simp add: list_all_iff)
  have m: "minimizeOids oids = x # minimize_loop (x @ ''.'') xs"
    using Cons by (simp add: minimizeOids_def)
  have "sorted (minimizeOids oids)" "distinct (minimizeOids oids)"
    using minimize_loop_sorted [OF s] s unfolding m by auto
  moreover have "set (minimizeOids oids) = minimal_oids (set oids)"
    using s minimize_loop_set [OF s ch] by (simp add: m st minimal_oids_insert_first)
  ultimately show ?thesis by (metis sorted_list_of_set.idem_if_sorted_distinct)
qed

text \<open>Whatever the OIDs are, each is still covered by a kept one.\<close>

lemma minimize_loop_covering:
  "z \<in> set oids \<Longrightarrow> covers q z \<or> (\<exists>y \<in> set (minimize_loop (q @ ''.'') oids). covers y z)"
proof (induction oids arbitrary: q)
  case (Cons x oids)
  from Cons.IH [of q] Cons.IH [of x] Cons.prems show ?case
    by (auto simp flip: covers_def)
qed simp

lemma minimizeOids_covering:
  assumes "z \<in> set oids"
  shows "\<exists>y \<in> set (minimizeOids oids). covers y z"
proof (cases "sort oids")
  case Nil
  then show ?thesis using assms by (metis length_pos_if_in_set length_sort list.size(3) less_nat_zero_code)
next
  case (Cons x xs)
  then have "z = x \<or> z \<in> set xs" using assms by (metis set_ConsD set_sort)
  then show ?thesis using minimize_loop_covering [of z xs x] Cons by (auto simp: minimizeOids_def)
qed

lemma minimizeOids_subset: "set (minimizeOids oids) \<subseteq> set oids"
proof -
  have "set (minimize_loop p xs) \<subseteq> set xs" for p xs
    by (induction p xs rule: minimize_loop.induct) auto
  then show ?thesis unfolding minimizeOids_def by (metis set_sort)
qed

interpretation minimized: subtrees_reduction covers minimizeOids
  by unfold_locales (rule minimizeOids_subset, erule minimizeOids_covering)

text \<open>So is an OID of a set.\<close>

lemma minimal_oids_covering:
  assumes "z \<in> A" and "finite A"
  shows "\<exists>y \<in> minimal_oids A. covers y z"
  using assms(1)
proof (induction z rule: measure_induct_rule [of length])
  case (less z)
  show ?case
  proof (cases "z \<in> minimal_oids A")
    case False
    with less.prems obtain y where y: "y \<in> A" "covers y z" "y \<noteq> z" by (auto simp: minimal_oids_def)
    then have "length y < length z" by (auto simp: covers_iff)
    from less.IH [OF this y(1)] y(2) covers_trans show ?thesis by blast
  qed (use covers_refl in blast)
qed

end
