(* ===== verification/GoUTF8.thy ===== *)
theory GoUTF8
  imports GoStrings
begin

text \<open>
  UTF-8 as Go's \<open>unicode/utf8\<close> reads it, and \<open>strings.ToValidUTF8(s, "\uFFFD")\<close>, through
  which every label value of a scrape passes. Shown: the result is valid UTF-8, a valid
  string is left alone, and validity is closed under concatenation.
\<close>

definition byte_at :: "nat \<Rightarrow> nat \<Rightarrow> nat \<Rightarrow> string \<Rightarrow> bool" where
  "byte_at i lo hi s \<longleftrightarrow> i < length s \<and> lo \<le> of_char (s ! i) \<and> of_char (s ! i) \<le> hi"

text \<open>
  The width of the rune a string starts with, 0 when its first byte starts no valid encoding
  (where \<open>utf8.DecodeRuneInString\<close> answers \<open>(RuneError, 1)\<close>): overlong forms, surrogates and
  code points above U+10FFFF are invalid.
\<close>

fun rune_len :: "string \<Rightarrow> nat" where
  "rune_len [] = 0"
| "rune_len (c # cs) = (let b = (of_char c :: nat) in
     if b < 128 then 1
     else if b < 194 then 0
     else if b < 224 then (if byte_at 0 128 191 cs then 2 else 0)
     else if b < 240 then
       (if byte_at 0 (if b = 224 then 160 else 128) (if b = 237 then 159 else 191) cs
           \<and> byte_at 1 128 191 cs then 3 else 0)
     else if b < 245 then
       (if byte_at 0 (if b = 240 then 144 else 128) (if b = 244 then 143 else 191) cs
           \<and> byte_at 1 128 191 cs \<and> byte_at 2 128 191 cs then 4 else 0)
     else 0)"

declare rune_len.simps(2) [simp del]

fun valid_utf8 :: "string \<Rightarrow> bool" where
  "valid_utf8 [] = True"
| "valid_utf8 (c # cs) =
     (case rune_len (c # cs) of 0 \<Rightarrow> False | Suc k \<Rightarrow> valid_utf8 (drop k cs))"

definition replacement :: string where
  "replacement = [char_of (239::nat), char_of (191::nat), char_of (189::nat)]"

text \<open>The loop of \<open>ToValidUTF8\<close>; the flag says that the previous byte was invalid.\<close>

fun toValid_loop :: "bool \<Rightarrow> string \<Rightarrow> string" where
  "toValid_loop bad [] = []"
| "toValid_loop bad (c # cs) =
     (case rune_len (c # cs) of
        0 \<Rightarrow> (if bad then [] else replacement) @ toValid_loop True cs
      | Suc k \<Rightarrow> c # take k cs @ toValid_loop False (drop k cs))"

definition toValidUTF8 :: "string \<Rightarrow> string" where
  "toValidUTF8 s = toValid_loop False s"

lemma byte_at_take_append:
  "byte_at i lo hi s \<Longrightarrow> i < k \<Longrightarrow> byte_at i lo hi (take k s @ t)"
  by (auto simp: byte_at_def nth_append)

lemma byte_at_append: "byte_at i lo hi s \<Longrightarrow> byte_at i lo hi (s @ t)"
  by (auto simp: byte_at_def nth_append)

lemma byte_at_length: "byte_at i lo hi s \<Longrightarrow> i < length s"
  by (simp add: byte_at_def)

lemma rune_len_bound: "rune_len (c # cs) = Suc k \<Longrightarrow> k \<le> length cs"
  by (auto simp: rune_len.simps Let_def Suc_le_eq split: if_splits dest!: byte_at_length)

lemma rune_len_take:
  "rune_len (c # cs) = Suc k \<Longrightarrow> rune_len (c # take k cs @ t) = Suc k"
  by (auto simp: rune_len.simps Let_def byte_at_take_append split: if_splits)

lemma rune_len_append:
  "rune_len (c # cs) = Suc k \<Longrightarrow> rune_len (c # cs @ t) = Suc k"
  by (auto simp: rune_len.simps Let_def byte_at_append split: if_splits)

lemma valid_utf8_rune:
  assumes "rune_len (c # cs) = Suc k" and "valid_utf8 t"
  shows "valid_utf8 (c # take k cs @ t)"
proof -
  have "length (take k cs) = k" using rune_len_bound [OF assms(1)] by simp
  then show ?thesis using assms by (simp add: rune_len_take)
qed

lemma valid_utf8_append: "valid_utf8 s \<Longrightarrow> valid_utf8 t \<Longrightarrow> valid_utf8 (s @ t)"
proof (induction s rule: valid_utf8.induct)
  case (2 c cs)
  from "2.prems"(1) obtain k where k: "rune_len (c # cs) = Suc k" "valid_utf8 (drop k cs)"
    by (auto split: nat.splits)
  with "2.IH" "2.prems"(2) have "valid_utf8 (drop k cs @ t)" by simp
  with k rune_len_bound [OF k(1)] show ?case by (simp add: rune_len_append)
qed simp

lemma valid_utf8_replacement: "valid_utf8 replacement"
  by (simp add: replacement_def rune_len.simps byte_at_def)

lemma valid_utf8_toValid_loop: "valid_utf8 (toValid_loop bad s)"
proof (induction bad s rule: toValid_loop.induct)
  case (2 bad c cs)
  show ?case
  proof (cases "rune_len (c # cs)")
    case 0
    with 2 show ?thesis by (simp add: valid_utf8_append valid_utf8_replacement)
  next
    case (Suc k)
    with 2 show ?thesis using valid_utf8_rune [OF Suc] by simp
  qed
qed simp

lemma valid_utf8_toValidUTF8 [simp]: "valid_utf8 (toValidUTF8 s)"
  by (simp add: toValidUTF8_def valid_utf8_toValid_loop)

lemma toValid_loop_id: "valid_utf8 s \<Longrightarrow> toValid_loop bad s = s"
proof (induction bad s rule: toValid_loop.induct)
  case (2 bad c cs)
  then obtain k where "rune_len (c # cs) = Suc k" "valid_utf8 (drop k cs)"
    by (auto split: nat.splits)
  with 2 show ?case by simp
qed simp

lemma toValidUTF8_id: "valid_utf8 s \<Longrightarrow> toValidUTF8 s = s"
  by (simp add: toValidUTF8_def toValid_loop_id)

lemma toValidUTF8_idem [simp]: "toValidUTF8 (toValidUTF8 s) = toValidUTF8 s"
  by (simp add: toValidUTF8_id)

text \<open>ASCII text is valid: digits, hexadecimal digits and the separators the code writes.\<close>

definition is_ascii :: "char \<Rightarrow> bool" where
  "is_ascii c \<longleftrightarrow> of_char c < (128 :: nat)"

lemma valid_utf8_ascii_Cons [simp]: "is_ascii c \<Longrightarrow> valid_utf8 (c # s) = valid_utf8 s"
  by (simp add: is_ascii_def rune_len.simps)

lemma valid_utf8_ascii: "list_all is_ascii s \<Longrightarrow> valid_utf8 s"
  by (induction s) (simp_all del: valid_utf8.simps(2))

lemma is_ascii_digit: "is_digit c \<Longrightarrow> is_ascii c"
  by (simp add: is_digit_def is_ascii_def)

lemma valid_utf8_itoa [simp]: "valid_utf8 (itoa i)"
  using formatUint_10_digits
  by (intro valid_utf8_ascii) (auto simp: itoa_def list_all_iff is_ascii_digit, simp_all add: is_ascii_def)

end
