(* ===== verification/NodeSearch.thy ===== *)
theory NodeSearch
  imports MibTree OidCover GoUTF8
begin

text \<open>
  The small functions of \<open>generator/tree.go\<close> and the search for nodes: \<open>combinedTypes\<close>,
  \<open>metricType\<close>, \<open>metricAccess\<close>, \<open>sanitizeLabelName\<close>, \<open>searchNodeTree\<close>, \<open>getMetricNode\<close> and
  \<open>getIndexNode\<close>. A pointer to a node is a shape, its address and its children; the map from
  names and OIDs to nodes is a list whose order is the one \<open>range\<close> visits it in. Shown: types
  that come out of \<open>metricType\<close> are fixed points of it, sanitized names are label names, and the
  search finds the node with the longest OID that covers the one looked for.
\<close>

section \<open>Types, access and label names\<close>

definition combinedTypes :: "(string \<times> string) list" where
  "combinedTypes = [(''InetAddress'', ''InetAddressType''), (''InetAddressMissingSize'', ''InetAddressType''),
     (''LldpPortId'', ''LldpPortIdSubtype'')]"

definition metricType :: "string \<Rightarrow> string option" where
  "metricType t =
    (if map_of combinedTypes t \<noteq> None then Some t
     else if t \<in> set [''gauge'', ''INTEGER'', ''GAUGE'', ''TIMETICKS'', ''UINTEGER'', ''UNSIGNED32'', ''INTEGER32'']
     then Some ''gauge''
     else if t \<in> set [''counter'', ''COUNTER'', ''COUNTER64''] then Some ''counter''
     else if t \<in> set [''OctetString'', ''OCTETSTR'', ''OBJID''] then Some ''OctetString''
     else if t = ''BITSTRING'' then Some ''Bits''
     else if t \<in> set [''InetAddressIPv4'', ''IpAddr'', ''IPADDR'', ''NETADDR''] then Some ''InetAddressIPv4''
     else if t \<in> set [''PhysAddress48'', ''DisplayString'', ''Float'', ''Double'', ''InetAddressIPv6''] then Some t
     else if t = ''DateAndTime'' then Some t
     else if t = ''ParseDateAndTime'' then Some t
     else if t = ''NTPTimeStamp'' then Some t
     else if t \<in> set [''EnumAsInfo'', ''EnumAsStateSet''] then Some t
     else None)"

text \<open>The types \<open>metricType\<close> answers.\<close>

definition metric_types :: "string list" where
  "metric_types = map fst combinedTypes @
    [''gauge'', ''counter'', ''OctetString'', ''Bits'', ''InetAddressIPv4'', ''PhysAddress48'', ''DisplayString'',
     ''Float'', ''Double'', ''InetAddressIPv6'', ''DateAndTime'', ''ParseDateAndTime'', ''NTPTimeStamp'',
     ''EnumAsInfo'', ''EnumAsStateSet'']"

definition metricAccess :: "string \<Rightarrow> bool" where
  "metricAccess a \<longleftrightarrow>
     a \<in> set [''ACCESS_READONLY'', ''ACCESS_READWRITE'', ''ACCESS_CREATE'', ''ACCESS_NOACCESS'']"

lemma metricType_Some: "metricType t = Some t' \<Longrightarrow> t' \<in> set metric_types"
  by (auto simp: metricType_def combinedTypes_def metric_types_def split: if_splits)

text \<open>\<open>Bits\<close> is the one answer that \<open>metricType\<close> does not accept itself.\<close>

lemma metricType_idem:
  assumes "metricType t = Some t'" and "t' \<noteq> ''Bits''"
  shows "metricType t' = Some t'"
proof -
  have "list_all (\<lambda>u. u = ''Bits'' \<or> metricType u = Some u) metric_types" by code_simp
  with assms show ?thesis using metricType_Some [OF assms(1)] by (auto simp: list_all_iff)
qed

definition label_char :: "char \<Rightarrow> bool" where
  "label_char c \<longleftrightarrow> (let b = (of_char c :: nat) in
     (97 \<le> b \<and> b \<le> 122) \<or> (65 \<le> b \<and> b \<le> 90) \<or> (48 \<le> b \<and> b \<le> 57) \<or> b = 95)"

text \<open>Each rune outside \<open>[a-zA-Z0-9_]\<close>, and each byte that starts none, becomes \<open>_\<close>.\<close>

fun sanitizeLabelName :: "string \<Rightarrow> string" where
  "sanitizeLabelName [] = []"
| "sanitizeLabelName (c # cs) =
     (if label_char c then c else CHR ''_'') # sanitizeLabelName (drop (rune_len (c # cs) - 1) cs)"

lemma label_char_rune: "label_char c \<Longrightarrow> rune_len (c # cs) = 1"
  by (auto simp: label_char_def rune_len.simps Let_def)

lemma sanitize_label: "list_all label_char (sanitizeLabelName s)"
  by (induction s rule: sanitizeLabelName.induct) (simp_all add: label_char_def)

lemma sanitize_id: "list_all label_char s \<Longrightarrow> sanitizeLabelName s = s"
  by (induction s) (simp_all add: label_char_rune)

section \<open>Searching the tree\<close>

fun searchNodeTree :: "heap \<Rightarrow> string \<Rightarrow> shape \<Rightarrow> shape option"
  and searchChildren :: "heap \<Rightarrow> string \<Rightarrow> shape list \<Rightarrow> shape option" where
  "searchNodeTree h oid (Shape a cs) =
     (if \<not> hasPrefix (oid @ ''.'') (n_Oid (h a) @ ''.'') then None
      else case searchChildren h oid cs of Some s \<Rightarrow> Some s | None \<Rightarrow> Some (Shape a cs))"
| "searchChildren h oid [] = None"
| "searchChildren h oid (c # cs) =
     (case searchNodeTree h oid c of Some s \<Rightarrow> Some s | None \<Rightarrow> searchChildren h oid cs)"

type_synonym names = "(string \<times> shape) list"

datatype oidMetricType = oidNotFound | oidScalar | oidInstance | oidSubtree

definition getMetricNode :: "heap \<Rightarrow> string \<Rightarrow> shape \<Rightarrow> names \<Rightarrow> shape option \<times> oidMetricType" where
  "getMetricNode h oid node nameToNode =
    (case map_of nameToNode oid of
       Some n \<Rightarrow>
         if metricType (n_Type (h (root n))) \<noteq> None \<and> metricAccess (n_Access (h (root n)))
             \<and> n_Indexes (h (root n)) = []
         then (Some n, oidScalar) else (Some n, oidSubtree)
     | None \<Rightarrow>
         (case searchNodeTree h oid node of
            None \<Rightarrow> (None, oidNotFound)
          | Some n \<Rightarrow>
              if \<not> (metricType (n_Type (h (root n))) \<noteq> None \<and> metricAccess (n_Access (h (root n))))
                  \<or> n_Indexes (h (root n)) = []
              then (None, oidNotFound) else (Some n, oidInstance)))"

text \<open>The nodes with the label of which the OID matches in every component but the last.\<close>

definition index_match :: "heap \<Rightarrow> string \<Rightarrow> string \<Rightarrow> shape \<Rightarrow> bool" where
  "index_match h lookup metricOid n \<longleftrightarrow> n_Label (h (root n)) = lookup \<and>
     hasPrefix (n_Oid (h (root n))) (join ''.'' (butlast (split_on CHR ''.'' metricOid)))"

definition getIndexNode :: "heap \<Rightarrow> string \<Rightarrow> names \<Rightarrow> string \<Rightarrow> shape option" where
  "getIndexNode h lookup nameToNode metricOid =
    (case find (\<lambda>(k, n). index_match h lookup metricOid n) nameToNode of
       Some (k, n) \<Rightarrow> Some n
     | None \<Rightarrow> map_of nameToNode lookup)"

section \<open>Lemmas\<close>

text \<open>A node covers what is below it; different siblings cover nothing in common.\<close>

abbreviation oid_at :: "heap \<Rightarrow> shape \<Rightarrow> string" where
  "oid_at h s \<equiv> n_Oid (h (root s))"

lemma self_subtree [simp]: "t \<in> set (subtrees t)"
  by (cases t) simp

lemma subtrees_cover: "tree_ok (tree_data h t) \<Longrightarrow> s \<in> set (subtrees t) \<Longrightarrow> covers (oid_at h t) (oid_at h s)"
proof (induction t)
  case (Shape a cs)
  show ?case
  proof (cases "s = Shape a cs")
    case False
    with Shape.prems(2) obtain c where c: "c \<in> set cs" "s \<in> set (subtrees c)" by auto
    with Shape have "covers (oid_at h c) (oid_at h s)" by (auto simp: list_all_iff)
    moreover have "covers (n_Oid (h a)) (oid_at h c)"
      using Shape.prems(1) c(1) by (auto simp: list_all_iff child_oid_iff covers_iff)
    ultimately show ?thesis by (auto intro: covers_trans)
  qed simp
qed

lemma child_oid_covers:
  assumes "child_oid p c" "child_oid p d" and "covers c oid" "covers d oid"
  shows "c = d"
proof -
  from assms obtain s t where s: "c = p @ CHR ''.'' # s" "CHR ''.'' \<notin> set s"
    and t: "d = p @ CHR ''.'' # t" "CHR ''.'' \<notin> set t" by (auto simp: child_oid_iff)
  from assms(3,4) obtain q r where "oid @ ''.'' = c @ CHR ''.'' # q" "oid @ ''.'' = d @ CHR ''.'' # r"
    by (auto simp: covers_def hasPrefix_iff)
  then have e: "s @ CHR ''.'' # q = t @ CHR ''.'' # r" using s t by simp
  have "takeWhile (\<lambda>x. x \<noteq> CHR ''.'') (u @ CHR ''.'' # v) = u" if "CHR ''.'' \<notin> set u" for u v :: string
    using that by (induction u) auto
  with e s t show ?thesis by metis
qed

text \<open>The result of a search: the node, if the OID is below the tree, of which nothing is longer.\<close>

definition longest_in :: "heap \<Rightarrow> string \<Rightarrow> shape list \<Rightarrow> shape \<Rightarrow> bool" where
  "longest_in h oid ts s \<longleftrightarrow> s \<in> set ts \<and> covers (oid_at h s) oid \<and>
     (\<forall>s' \<in> set ts. covers (oid_at h s') oid \<longrightarrow> length (oid_at h s') \<le> length (oid_at h s))"

lemma searchChildren_find:
  "searchChildren h oid cs =
     (case find (\<lambda>c. searchNodeTree h oid c \<noteq> None) cs of
        None \<Rightarrow> None | Some c \<Rightarrow> searchNodeTree h oid c)"
  by (induction cs) (auto split: option.splits)

lemma searchNodeTree_None: "searchNodeTree h oid t = None \<longleftrightarrow> \<not> covers (oid_at h t) oid"
  by (cases t) (simp add: covers_def split: option.splits)

lemma searchNodeTree_Some:
  "tree_ok (tree_data h t) \<Longrightarrow> searchNodeTree h oid t = Some s \<Longrightarrow> longest_in h oid (subtrees t) s"
proof (induction t arbitrary: s)
  case (Shape a cs)
  from Shape.prems(2) have cov: "covers (n_Oid (h a)) oid"
    by (auto simp: covers_def split: if_splits)
  have ok: "tree_ok (tree_data h c)" "child_oid (n_Oid (h a)) (oid_at h c)" if "c \<in> set cs" for c
    using Shape.prems(1) that by (auto simp: list_all_iff)
  show ?case
  proof (cases "find (\<lambda>c. searchNodeTree h oid c \<noteq> None) cs")
    case None
    then have "\<not> covers (oid_at h c) oid" if "c \<in> set cs" for c
      using that by (auto simp: find_None_iff searchNodeTree_None)
    then have "\<not> covers (oid_at h s') oid" if "c \<in> set cs" "s' \<in> set (subtrees c)" for c s'
      using that subtrees_cover [OF ok(1)] covers_trans by metis
    moreover have "s = Shape a cs"
      using Shape.prems(2) None by (auto simp: searchChildren_find split: if_splits)
    ultimately show ?thesis using cov by (auto simp: longest_in_def)
  next
    case (Some c)
    then have c: "c \<in> set cs" "searchNodeTree h oid c \<noteq> None" by (auto simp: find_Some_iff)
    with Shape.prems(2) Some have "searchNodeTree h oid c = Some s"
      by (auto simp: searchChildren_find split: if_splits)
    with Shape.IH c ok have l: "longest_in h oid (subtrees c) s" by blast
    have cc: "covers (oid_at h c) oid" using c(2) unfolding searchNodeTree_None by simp
    have other: "d = c \<or> \<not> covers (oid_at h s') oid" if "d \<in> set cs" "s' \<in> set (subtrees d)" for d s'
    proof (rule disjCI)
      assume "\<not> \<not> covers (oid_at h s') oid"
      then have "covers (oid_at h d) oid"
        using subtrees_cover [OF ok(1) [OF that(1)] that(2)] covers_trans by blast
      then have "oid_at h d = oid_at h c" using child_oid_covers ok c(1) that(1) cc by blast
      moreover have "distinct (map (oid_at h) cs)" using Shape.prems(1) by (simp add: o_def)
      ultimately show "d = c" using c(1) that(1) by (auto simp: distinct_map inj_on_def)
    qed
    have "length (n_Oid (h a)) \<le> length (oid_at h s)"
    proof -
      have "length (oid_at h c) \<le> length (oid_at h s)" using l cc by (simp add: longest_in_def)
      then show ?thesis using ok(2) [OF c(1)] by (auto simp: child_oid_iff)
    qed
    with l c(1) other show ?thesis by (fastforce simp: longest_in_def)
  qed
qed

lemma getIndexNode_label:
  assumes "getIndexNode h lookup nameToNode oid = Some n"
  shows "(\<exists>k. (k, n) \<in> set nameToNode) \<and>
    (n_Label (h (root n)) = lookup \<or> map_of nameToNode lookup = Some n)"
proof (cases "find (\<lambda>(k, n). index_match h lookup oid n) nameToNode")
  case None
  with assms show ?thesis by (auto simp: getIndexNode_def dest: map_of_SomeD)
next
  case (Some e)
  then have "e \<in> set nameToNode" "index_match h lookup oid (snd e)"
    by (auto simp: find_Some_iff split_beta)
  with Some assms show ?thesis by (cases e) (auto simp: getIndexNode_def index_match_def)
qed

lemma getIndexNode_total:
  "map_of nameToNode lookup \<noteq> None \<Longrightarrow> getIndexNode h lookup nameToNode oid \<noteq> None"
  by (auto simp: getIndexNode_def split: option.splits)

end
