(* ===== verification/PrepareTree.thy ===== *)
theory PrepareTree
  imports NodeSearch
begin

text \<open>
  \<open>prepareTree\<close> of \<open>generator/tree.go\<close>: six walks over the MIB tree that build the map of names
  and change the nodes in place. Each walk is a definition; the descriptions are trimmed with
  \<open>strings.Fields\<close> and \<open>strings.Split\<close>. Shown: only descriptions, indexes and types change, and
  afterwards the children of a node with indexes have the indexes of that node.
\<close>

section \<open>The walks\<close>

definition update_node :: "addr \<Rightarrow> (Node \<Rightarrow> Node) \<Rightarrow> heap \<Rightarrow> heap" where
  "update_node a f h = h(a := f (h a))"

definition names_of :: "heap \<Rightarrow> shape \<Rightarrow> names" where
  "names_of h nodes =
     walkNode (\<lambda>n m. AList.update (n_Label (h (root n))) n (AList.update (oid_at h n) n m)) nodes []"

text \<open>\<open>unicode.IsSpace\<close> on the bytes of a rune.\<close>

definition isSpace :: "string \<Rightarrow> bool" where
  "isSpace r \<longleftrightarrow> (case map of_char r of
       [b] \<Rightarrow> (9 \<le> b \<and> b \<le> 13) \<or> b = (32 :: nat)
     | [b, c] \<Rightarrow> b = 194 \<and> (c = 133 \<or> c = 160)
     | [b, c, d] \<Rightarrow> [b, c, d] \<in> set [[225, 154, 128], [226, 129, 159], [227, 128, 128]] \<or>
         (b = 226 \<and> c = 128 \<and> ((128 \<le> d \<and> d \<le> 138) \<or> d = 168 \<or> d = 169 \<or> d = 175))
     | _ \<Rightarrow> False)"

text \<open>\<open>strings.Fields\<close>, with the word read so far.\<close>

fun fields_loop :: "string \<Rightarrow> string \<Rightarrow> string list" where
  "fields_loop w [] = (if w = [] then [] else [w])"
| "fields_loop w (c # cs) =
     (let k = rune_len (c # cs) - 1; r = c # take k cs in
      if isSpace r then (if w = [] then [] else [w]) @ fields_loop [] (drop k cs)
      else fields_loop (w @ r) (drop k cs))"

text \<open>\<open>strings.Split(s, ". ")[0]\<close>\<close>

fun first_sentence :: "string \<Rightarrow> string" where
  "first_sentence [] = []"
| "first_sentence (c # cs) = (if hasPrefix (c # cs) ''. '' then [] else c # first_sentence cs)"

definition trim_description :: "Node \<Rightarrow> Node" where
  "trim_description n = n\<lparr>n_Description := first_sentence (join '' '' (fields_loop [] (n_Description n)))\<rparr>"

definition name_integer_indexes :: "Node \<Rightarrow> Node" where
  "name_integer_indexes n =
     n\<lparr>n_Indexes := map (\<lambda>i. if i = ''INTEGER'' then n_Label n else i) (n_Indexes n)\<rparr>"

definition set_index :: "Node \<Rightarrow> Node \<Rightarrow> Node" where
  "set_index from c = c\<lparr>n_Indexes := n_Indexes from, n_ImpliedIndex := n_ImpliedIndex from\<rparr>"

text \<open>The indexes of \<open>from\<close> are read before each write, as the code does.\<close>

definition copy_index :: "addr \<Rightarrow> addr \<Rightarrow> heap \<Rightarrow> heap" where
  "copy_index from c h = update_node c (set_index (h from)) h"

definition augment :: "names \<Rightarrow> shape \<Rightarrow> heap \<Rightarrow> heap" where
  "augment nameToNode n h =
    (if n_Augments (h (root n)) = [] then h
     else case map_of nameToNode (n_Augments (h (root n))) of
       None \<Rightarrow> h
     | Some augmented \<Rightarrow>
         copy_index (root augmented) (root n)
           (fold (\<lambda>c. copy_index (root augmented) (root c)) (children n) h))"

definition copy_down :: "shape \<Rightarrow> heap \<Rightarrow> heap" where
  "copy_down n h =
    (if n_Indexes (h (root n)) \<noteq> []
     then fold (\<lambda>c. copy_index (root n) (root c)) (children n) h else h)"

text \<open>\<open>^\d+[at]$\<close>\<close>

definition displayStringRe :: "string \<Rightarrow> bool" where
  "displayStringRe s \<longleftrightarrow> 2 \<le> length s \<and> list_all is_digit (butlast s) \<and> last s \<in> set ''at''"

definition set_type :: "bool \<Rightarrow> string \<Rightarrow> Node \<Rightarrow> Node" where
  "set_type b t n = (if b then n\<lparr>n_Type := t\<rparr> else n)"

definition tweak_type :: "Node \<Rightarrow> Node" where
  "tweak_type n =
    (let tc = n_TextualConvention n;
         n = set_type (n_Hint n = ''1x:'' \<and> (n_FixedSize n = 0 \<or> n_FixedSize n = 6)) ''PhysAddress48'' n;
         n = set_type (displayStringRe (n_Hint n)) ''DisplayString'' n;
         n = set_type (tc = ''DisplayString'') ''DisplayString'' n;
         n = set_type (tc = ''PhysAddress'') ''PhysAddress48'' n;
         n = set_type (tc = ''Float'' \<or> tc = ''Double'') tc n;
         n = set_type (tc = ''DateAndTime'') ''DateAndTime'' n;
         n = set_type (tc = ''ParseDateAndTime'') ''ParseDateAndTime'' n;
         n = set_type (tc = ''NTPTimeStamp'') ''NTPTimeStamp'' n;
         n = set_type (tc = ''InetAddressIPv4'' \<or> tc = ''InetAddressIPv6'' \<or> tc = ''InetAddress'') tc n
     in set_type (tc = ''LldpPortId'') tc n)"

definition on_node :: "(Node \<Rightarrow> Node) \<Rightarrow> shape \<Rightarrow> heap \<Rightarrow> heap" where
  "on_node f n = update_node (root n) f"

definition prepareTree :: "shape \<Rightarrow> heap \<Rightarrow> names \<times> heap" where
  "prepareTree nodes h =
    (let nameToNode = names_of h nodes;
         h = walkNode (on_node trim_description) nodes h;
         h = walkNode (on_node name_integer_indexes) nodes h;
         h = walkNode (augment nameToNode) nodes h;
         h = walkNode copy_down nodes h;
         h = walkNode (on_node tweak_type) nodes h
     in (nameToNode, h))"

section \<open>What a walk leaves alone\<close>

lemma fold_keeps:
  "(\<And>x h. x \<in> set xs \<Longrightarrow> k (f x h a) = k (h a)) \<Longrightarrow> k (fold f xs h a) = k ((h :: heap) a)"
  by (induction xs arbitrary: h) simp_all

lemma walkNode_keeps: "(\<And>s h. k (f s h a) = k (h a)) \<Longrightarrow> k (walkNode f t h a) = k ((h :: heap) a)"
  unfolding walkNode_subtrees by (rule fold_keeps)

lemma copy_index_keeps:
  "(\<And>from n. k (set_index from n) = k n) \<Longrightarrow> k (copy_index from c h a) = k (h a)"
  by (simp add: copy_index_def update_node_def)

text \<open>A field that neither indexes, descriptions nor types are part of keeps its value.\<close>

lemma prepareTree_keeps:
  assumes "\<And>n. k (trim_description n) = k n" "\<And>n. k (name_integer_indexes n) = k n"
    and "\<And>from n. k (set_index from n) = k n" "\<And>n. k (tweak_type n) = k n"
  shows "k (snd (prepareTree t h) a) = k (h a)"
proof -
  have "k (copy_down s h a) = k (h a)" for s h
    by (auto simp: copy_down_def intro!: fold_keeps copy_index_keeps assms(3))
  moreover have "k (augment m s h a) = k (h a)" for m s h
    by (auto simp: augment_def copy_index_keeps [OF assms(3)] intro!: fold_keeps split: option.splits)
  moreover have "k (on_node f s h a) = k (h a)" if "\<And>n. k (f n) = k n" for f s h
    using that by (simp add: on_node_def update_node_def)
  ultimately show ?thesis using assms
    by (simp add: prepareTree_def Let_def walkNode_keeps)
qed

lemma set_type_keeps:
  "(\<And>n t. k (n\<lparr>n_Type := t\<rparr>) = k n) \<Longrightarrow> k (set_type b t n) = k n"
  by (simp add: set_type_def)

lemma tweak_type_keeps: "(\<And>n t. k (n\<lparr>n_Type := t\<rparr>) = k n) \<Longrightarrow> k (tweak_type n) = k n"
  by (simp add: tweak_type_def Let_def set_type_keeps)

lemma prepareTree_Oid: "n_Oid (snd (prepareTree t h) a) = n_Oid (h a)"
  and prepareTree_Label: "n_Label (snd (prepareTree t h) a) = n_Label (h a)"
  and prepareTree_Access: "n_Access (snd (prepareTree t h) a) = n_Access (h a)"
  by (rule prepareTree_keeps; simp add: tweak_type_keeps trim_description_def
      name_integer_indexes_def set_index_def)+

text \<open>A tree with the same OIDs is as well-formed.\<close>

lemma tree_ok_cong:
  "(\<And>a. a \<in> set (addrs t) \<Longrightarrow> n_Oid (h' a) = n_Oid (h a)) \<Longrightarrow>
   tree_ok (tree_data h' t) = tree_ok (tree_data h t)"
proof (induction t)
  case (Shape a cs)
  have "n_Oid (h' (root c)) = n_Oid (h (root c))" if "c \<in> set cs" for c
    using that by (intro Shape.prems) (cases c, force simp: addrs_Shape)
  then have "distinct (map (\<lambda>c. n_Oid (h' (root c))) cs) = distinct (map (\<lambda>c. n_Oid (h (root c))) cs)"
    and "\<forall>c \<in> set cs. n_Oid (h' (root c)) = n_Oid (h (root c))"
    by (simp_all cong: map_cong)
  moreover have "\<forall>c \<in> set cs. tree_ok (tree_data h' c) = tree_ok (tree_data h c)"
    using Shape by (simp add: addrs_Shape) blast
  moreover have "n_Oid (h' a) = n_Oid (h a)" using Shape.prems [of a] by (simp add: addrs_Shape)
  ultimately show ?case by (simp add: list_all_iff o_def)
qed

section \<open>Indexes are handed down\<close>

lemma update_other: "a \<noteq> b \<Longrightarrow> update_node b f h a = h a"
  by (simp add: update_node_def)

lemma fold_copy_index:
  assumes "a \<notin> set xs"
  shows "fold (copy_index a) xs h b = (if b \<in> set xs then set_index (h a) (h b) else h b)"
  using assms
  by (induction xs arbitrary: h) (auto simp: copy_index_def update_node_def set_index_def)

lemma copy_down_at:
  "a \<notin> root ` set cs \<Longrightarrow> copy_down (Shape a cs) h b =
     (if n_Indexes (h a) \<noteq> [] \<and> b \<in> root ` set cs then set_index (h a) (h b) else h b)"
  using fold_copy_index [of a "map root cs" h b] by (simp add: copy_down_def fold_map o_def)

lemma root_in_addrs: "root t \<in> set (addrs t)"
  by (cases t) (simp add: addrs_Shape)

text \<open>Walking a tree changes neither its root nor what is outside it.\<close>

lemma walk_copy_down_outside:
  "distinct (addrs t) \<Longrightarrow> b \<notin> set (addrs t) - {root t} \<Longrightarrow> walkNode copy_down t h b = h b"
proof (induction t arbitrary: h)
  case (Shape a cs)
  have a: "a \<notin> root ` set cs" using Shape.prems(1) root_in_addrs by (force simp: addrs_Shape)
  have cs: "fold (walkNode copy_down) ds h b = h b" if "set ds \<subseteq> set cs" for ds h
  proof -
    have "b \<notin> set (addrs c)" if "c \<in> set cs" for c
      using Shape.prems that by (auto simp: addrs_Shape)
    then show ?thesis using that Shape
      by (induction ds arbitrary: h) (auto simp: addrs_Shape distinct_concat_iff)
  qed
  have "b \<notin> root ` set cs" using Shape.prems root_in_addrs by (force simp: addrs_Shape)
  then show ?case using cs [OF order_refl] a by (simp add: copy_down_at)
qed

definition indexes_inherited :: "heap \<Rightarrow> shape \<Rightarrow> bool" where
  "indexes_inherited h t \<longleftrightarrow> list_all (\<lambda>s. n_Indexes (h (root s)) \<noteq> [] \<longrightarrow>
     list_all (\<lambda>c. n_Indexes (h (root c)) = n_Indexes (h (root s)) \<and>
       n_ImpliedIndex (h (root c)) = n_ImpliedIndex (h (root s))) (children s)) (subtrees t)"

lemma children_addrs: "s \<in> set (subtrees t) \<Longrightarrow> c \<in> set (children s) \<Longrightarrow> root c \<in> set (addrs t)"
proof (induction t)
  case (Shape a cs)
  then show ?case using root_in_addrs [of c] by (auto simp: addrs_Shape)
qed

lemma indexes_inherited_cong:
  assumes "\<And>b. b \<in> set (addrs t) \<Longrightarrow> n_Indexes (h' b) = n_Indexes (h b) \<and> n_ImpliedIndex (h' b) = n_ImpliedIndex (h b)"
  shows "indexes_inherited h' t = indexes_inherited h t"
proof -
  have "root s \<in> set (addrs t)" if "s \<in> set (subtrees t)" for s using that by (simp add: addrs_def)
  with assms children_addrs [of _ t] show ?thesis
    unfolding indexes_inherited_def list_all_iff by (intro ball_cong refl) simp
qed

lemma indexes_inherited_Shape:
  "indexes_inherited h (Shape a cs) \<longleftrightarrow>
     (n_Indexes (h a) \<noteq> [] \<longrightarrow> list_all (\<lambda>c. n_Indexes (h (root c)) = n_Indexes (h a) \<and>
        n_ImpliedIndex (h (root c)) = n_ImpliedIndex (h a)) cs) \<and>
     list_all (indexes_inherited h) cs"
  by (auto simp: indexes_inherited_def [abs_def] list_all_iff)

lemma walk_list_outside:
  "distinct (concat (map addrs ds)) \<Longrightarrow> \<forall>c \<in> set ds. b \<notin> set (addrs c) - {root c} \<Longrightarrow>
   fold (walkNode copy_down) ds h b = h b"
  by (induction ds arbitrary: h) (simp_all add: walk_copy_down_outside)

lemma walk_list_inherited:
  assumes "distinct (concat (map addrs ds))"
    and "\<And>c h. c \<in> set ds \<Longrightarrow> indexes_inherited (walkNode copy_down c h) c"
  shows "list_all (indexes_inherited (fold (walkNode copy_down) ds h)) ds"
  using assms
proof (induction ds arbitrary: h)
  case (Cons d ds)
  let ?h = "walkNode copy_down d h"
  have "fold (walkNode copy_down) ds ?h b = ?h b" if "b \<in> set (addrs d)" for b
    using Cons.prems(1) that by (intro walk_list_outside) auto
  then have "indexes_inherited (fold (walkNode copy_down) ds ?h) d"
    using Cons.prems(2) [of d h] by (subst indexes_inherited_cong [of d _ ?h]) auto
  with Cons show ?case by simp
qed simp

lemma root_not_inside:
  assumes "distinct (concat (map addrs cs))" and "c \<in> set cs" "d \<in> set cs"
  shows "root c \<notin> set (addrs d) - {root d}"
proof (cases "addrs c = addrs d")
  case True
  then have "hd (addrs c) = hd (addrs d)" by simp
  then have "root c = root d" by (cases c; cases d) (simp add: addrs_Shape)
  then show ?thesis by simp
next
  case False
  with assms have "set (addrs c) \<inter> set (addrs d) = {}" by (simp add: distinct_concat_iff)
  then show ?thesis using root_in_addrs by auto
qed

lemma walk_copy_down_inherited:
  "distinct (addrs t) \<Longrightarrow> indexes_inherited (walkNode copy_down t h) t"
proof (induction t arbitrary: h)
  case (Shape a cs)
  let ?h = "copy_down (Shape a cs) h"
  let ?H = "fold (walkNode copy_down) cs ?h"
  from Shape.prems have d: "distinct (concat (map addrs cs))"
    and a: "\<forall>c \<in> set cs. a \<notin> set (addrs c)" by (auto simp: addrs_Shape)
  then have ar: "a \<notin> root ` set cs" using root_in_addrs by force
  have "distinct (addrs c)" if "c \<in> set cs" for c using d that by (simp add: distinct_concat_iff)
  with Shape.IH have "list_all (indexes_inherited ?H) cs" by (intro walk_list_inherited d) blast
  moreover have "?H a = ?h a" using a by (intro walk_list_outside d) simp
  moreover have "?H (root c) = ?h (root c)" if "c \<in> set cs" for c
    using root_not_inside [OF d that] by (intro walk_list_outside d) blast
  ultimately show ?case
    using ar by (simp add: indexes_inherited_Shape copy_down_at list_all_iff set_index_def)
qed

lemma prepareTree_inherited:
  assumes "distinct (addrs t)"
  shows "indexes_inherited (snd (prepareTree t h)) t"
proof -
  have k: "k (walkNode (on_node tweak_type) t g b) = k (g b)" if "\<And>n t. k (n\<lparr>n_Type := t\<rparr>) = k n"
    for k :: "Node \<Rightarrow> 'b" and g b
    using that by (intro walkNode_keeps) (simp add: on_node_def update_node_def tweak_type_keeps)
  have "indexes_inherited (walkNode (on_node tweak_type) t g) t = indexes_inherited g t" for g
    by (rule indexes_inherited_cong) (simp add: k)
  then show ?thesis by (simp add: prepareTree_def Let_def walk_copy_down_inherited [OF assms])
qed

end
