(* ===== verification/Oid.thy ===== *)
theory Oid
  imports GoStrings
begin

text \<open>
  OIDs in \<open>collector/collector.go\<close>: \<open>oidToList\<close>, \<open>listToOid\<close>, \<open>getPrevOid\<close> and \<open>splitOid\<close>. The
  interface \<open>codec\<close> states what the scrape relies on when it builds map keys out of index
  components: printing is undone by reading, so different components give different keys.
\<close>

section \<open>The code\<close>

definition oidToList :: "string \<Rightarrow> int list" where
  "oidToList oid = map (\<lambda>x. fst (atoi x)) (split_on CHR ''.'' oid)"

definition listToOid :: "int list \<Rightarrow> string" where
  "listToOid l = (if l = [] then [] else join ''.'' (map itoa l))"

definition getPrevOid :: "string \<Rightarrow> string" where
  "getPrevOid oid =
     (let oids = split_on CHR ''.'' oid;
          i = fst (atoi (last oids))
      in join ''.'' (butlast oids @ [itoa (i64 (i - 1))]))"

text \<open>\<open>splitOid\<close>: \<open>make([]int, count)\<close> panics on a negative count.\<close>

definition splitOid :: "int list \<Rightarrow> int \<Rightarrow> (int list \<times> int list) go" where
  "splitOid oid count =
     (if count < 0 then Inl MakeSliceLen
      else let n = nat count
           in Inr (take n oid @ replicate (n - length oid) 0, drop n oid))"

section \<open>Encodings that reading undoes\<close>

locale codec =
  fixes enc :: "'a \<Rightarrow> 'b"
    and dec :: "'b \<Rightarrow> 'a"
    and valid :: "'a \<Rightarrow> bool"
  assumes dec_enc: "valid x \<Longrightarrow> dec (enc x) = x"
begin

lemma enc_inject: "valid x \<Longrightarrow> valid y \<Longrightarrow> enc x = enc y \<longleftrightarrow> x = y"
  by (metis dec_enc)

lemma inj_on_enc: "inj_on enc {x. valid x}"
  by (rule inj_onI) (simp add: enc_inject)

lemma map_enc_inject:
  "list_all valid xs \<Longrightarrow> list_all valid ys \<Longrightarrow> map enc xs = map enc ys \<longleftrightarrow> xs = ys"
  by (metis (no_types, lifting) dec_enc list.map_cong0 list.map_comp list_all_iff map_idI o_apply)

text \<open>A map built with encoded keys is read back with the encoded key, and no other.\<close>

lemma enc_key_update:
  "valid x \<Longrightarrow> valid y \<Longrightarrow> (m(enc x \<mapsto> v)) (enc y) = (if x = y then Some v else m (enc y))"
  by (auto simp: enc_inject)

end

interpretation dec: codec itoa "\<lambda>s. fst (atoi s)" in_i64
  by unfold_locales (simp add: atoi_itoa)

text \<open>Lists that are OIDs: not empty, every component an \<open>int\<close>.\<close>

definition oid_list :: "int list \<Rightarrow> bool" where
  "oid_list l \<longleftrightarrow> l \<noteq> [] \<and> list_all in_i64 l"

lemma split_on_listToOid: "l \<noteq> [] \<Longrightarrow> split_on CHR ''.'' (listToOid l) = map itoa l"
  by (simp add: listToOid_def split_on_join itoa_no_dot)

lemma oidToList_listToOid: "oid_list l \<Longrightarrow> oidToList (listToOid l) = l"
  by (auto simp: oidToList_def oid_list_def split_on_listToOid list_all_iff dec.dec_enc intro!: map_idI)

interpretation oid: codec listToOid oidToList oid_list
  by unfold_locales (rule oidToList_listToOid)

section \<open>Lemmas\<close>

lemma oidToList_nonempty [simp]: "oidToList oid \<noteq> []"
  by (simp add: oidToList_def)

lemma in_i64_atoi [simp]: "in_i64 (fst (atoi s))"
  by (auto simp: atoi_def atoi_sign_def in_i64_def split: list.splits)

lemma oid_list_oidToList [simp]: "oid_list (oidToList oid)"
  by (simp add: oid_list_def list_all_iff) (auto simp: oidToList_def)

lemma listToOid_append:
  assumes "a \<noteq> []" and "b \<noteq> []"
  shows "listToOid (a @ b) = listToOid a @ ''.'' @ listToOid b"
proof -
  have "ws \<noteq> [] \<Longrightarrow> vs \<noteq> [] \<Longrightarrow> join s (ws @ vs) = join s ws @ s @ join s vs" for s ws vs
    by (induction s ws rule: join.induct) (simp_all add: join_Cons_eq)
  with assms show ?thesis by (simp add: listToOid_def)
qed

text \<open>The previous object of a column: the last component, less one.\<close>

lemma getPrevOid_listToOid:
  assumes "in_i64 i"
  shows "getPrevOid (listToOid (l @ [i])) = listToOid (l @ [i64 (i - 1)])"
  using assms atoi_itoa [OF assms]
  by (simp add: getPrevOid_def split_on_listToOid) (simp add: listToOid_def)

lemma splitOid_conserves:
  assumes "splitOid oid n = Inr (h, t)"
  shows "\<exists>k. h @ t = oid @ replicate k 0 \<and> (0 < k \<longrightarrow> t = [])" "int (length h) = n"
proof -
  from assms have n: "0 \<le> n"
    and h: "h = take (nat n) oid @ replicate (nat n - length oid) 0" and t: "t = drop (nat n) oid"
    by (auto simp: splitOid_def Let_def split: if_splits)
  show "int (length h) = n" using n h by (simp add: min_def)
  show "\<exists>k. h @ t = oid @ replicate k 0 \<and> (0 < k \<longrightarrow> t = [])"
  proof (cases "nat n \<le> length oid")
    case True
    with h t have "h @ t = oid @ replicate 0 0" by simp
    then show ?thesis by blast
  next
    case False
    with h t have "h @ t = oid @ replicate (nat n - length oid) 0 \<and> t = []" by simp
    then show ?thesis by blast
  qed
qed

lemma splitOid_total: "0 \<le> n \<Longrightarrow> \<exists>h t. splitOid oid n = Inr (h, t)"
  by (simp add: splitOid_def Let_def)

lemma splitOid_nonneg:
  assumes "splitOid oid n = Inr (h, t)" and "list_all ((\<le>) 0) oid"
  shows "list_all ((\<le>) 0) h" "list_all ((\<le>) 0) t"
  using assms by (auto simp: splitOid_def Let_def list_all_iff split: if_splits
      dest!: in_set_takeD in_set_dropD)

end
