(* ===== verification/Generate.thy ===== *)
theory Generate
  imports PrepareTree Oid Config
begin

text \<open>
  \<open>generateConfigModule\<close> of \<open>generator/tree.go\<close> and the structs of \<open>generator/config.go\<close>: from the
  prepared MIB tree and the entries of a module in generator.yml to a module of the exporter. One
  definition for each phase, in the order of the code. The set \<open>needToWalk\<close> is a list without
  duplicates; maps are association lists in the order of \<open>range\<close>. Logging is left out.
\<close>

section \<open>The generator configuration\<close>

record MetricOverrides =
  ov_Ignore :: bool
  ov_RegexpExtracts :: "(string \<times> RegexpExtract list) list"
  ov_DateTimePattern :: string
  ov_Offset :: f64
  ov_Scale :: f64
  ov_Type :: string
  ov_Help :: string
  ov_Name :: string
  ov_DisplayHint :: string

record GenLookup =
  SourceIndexes :: "string list"
  gl_Lookup :: string
  DropSourceIndexes :: bool
  gl_DisplayHint :: string

record ModuleConfig =
  mc_Walk :: "string list"
  mc_Lookups :: "GenLookup list"
  mc_WalkParams :: WalkParams
  mc_Overrides :: "(string \<times> MetricOverrides) list"
  mc_Filters :: Filters

definition zero_MetricOverrides :: MetricOverrides where
  "zero_MetricOverrides = \<lparr>ov_Ignore = False, ov_RegexpExtracts = [], ov_DateTimePattern = [],
     ov_Offset = f64_zero, ov_Scale = f64_zero, ov_Type = [], ov_Help = [], ov_Name = [],
     ov_DisplayHint = []\<rparr>"

text \<open>\<open>config.WalkParams{}\<close>\<close>

definition zero_WalkParams :: WalkParams where
  "zero_WalkParams = \<lparr>MaxRepetitions = 0, Retries = None, Timeout = 0,
     UseUnconnectedUDPSocket = False, AllowNonIncreasingOIDs = False\<rparr>"

text \<open>Looking a key up in a Go map of structs answers the zero value for a missing key.\<close>

definition override_of :: "(string \<times> MetricOverrides) list \<Rightarrow> string \<Rightarrow> MetricOverrides" where
  "override_of ovs name = (case map_of ovs name of Some p \<Rightarrow> p | None \<Rightarrow> zero_MetricOverrides)"

datatype gen_error =
    InvalidOid string
  | CannotFindOid string
  | UnknownIndex string
  | UnknownLookupType string string

section \<open>What to walk\<close>

text \<open>Type overrides change the nodes.\<close>

definition override_type :: "names \<Rightarrow> string \<times> MetricOverrides \<Rightarrow> heap \<Rightarrow> heap" where
  "override_type nameToNode e h = (case e of (name, params) \<Rightarrow>
     if ov_Type params = [] then h
     else case map_of nameToNode name of
       None \<Rightarrow> h
     | Some n \<Rightarrow> update_node (root n) (\<lambda>x. x\<lparr>n_Type := ov_Type params\<rparr>) h)"

definition resolve :: "heap \<Rightarrow> names \<Rightarrow> string \<Rightarrow> string" where
  "resolve h nameToNode oid = (case map_of nameToNode oid of Some n \<Rightarrow> oid_at h n | None \<Rightarrow> oid)"

fun to_walk :: "heap \<Rightarrow> names \<Rightarrow> string list \<Rightarrow> gen_error + string list" where
  "to_walk h nameToNode [] = Inr []"
| "to_walk h nameToNode (oid # oids) =
     (if hasPrefix oid ''.'' then Inl (InvalidOid oid)
      else case to_walk h nameToNode oids of
        Inl e \<Rightarrow> Inl e | Inr rest \<Rightarrow> Inr (resolve h nameToNode oid # rest))"

text \<open>\<open>strings.Replace(s, old, "", 1)\<close>\<close>

fun remove_first :: "string \<Rightarrow> string \<Rightarrow> string" where
  "remove_first old [] = []"
| "remove_first old (c # cs) =
     (if hasPrefix (c # cs) old then drop (length old) (c # cs) else c # remove_first old cs)"

record walks =
  needToWalk :: "string list"
  tableInstances :: "(string \<times> string list) list"
  metricNodes :: "shape list"

definition need :: "string \<Rightarrow> walks \<Rightarrow> walks" where
  "need oid w = w\<lparr>needToWalk := List.insert oid (needToWalk w)\<rparr>"

definition unneed :: "string \<Rightarrow> walks \<Rightarrow> walks" where
  "unneed oid w = w\<lparr>needToWalk := removeAll oid (needToWalk w)\<rparr>"

definition instances_of :: "walks \<Rightarrow> string \<Rightarrow> string list" where
  "instances_of w oid = (case map_of (tableInstances w) oid of Some is \<Rightarrow> is | None \<Rightarrow> [])"

definition add_instance :: "string \<Rightarrow> string \<Rightarrow> walks \<Rightarrow> walks" where
  "add_instance oid index w =
     w\<lparr>tableInstances := AList.update oid (instances_of w oid @ [index]) (tableInstances w)\<rparr>"

text \<open>A trailing period marks an OID for a get; scalars have the instance 0.\<close>

definition add_top :: "heap \<Rightarrow> string \<Rightarrow> shape \<Rightarrow> oidMetricType \<Rightarrow> walks \<Rightarrow> walks" where
  "add_top h oid metricNode ty w =
     (let w = (case ty of
          oidSubtree \<Rightarrow> need oid w
        | oidInstance \<Rightarrow> add_instance (oid_at h metricNode) (remove_first (oid_at h metricNode) oid)
                           (need (oid @ ''.'') w)
        | oidScalar \<Rightarrow> need (oid @ ''.0.'') w
        | oidNotFound \<Rightarrow> w)
      in w\<lparr>metricNodes := List.insert metricNode (metricNodes w)\<rparr>)"

fun find_top :: "heap \<Rightarrow> shape \<Rightarrow> names \<Rightarrow> string list \<Rightarrow> walks \<Rightarrow> gen_error + walks" where
  "find_top h node nameToNode [] w = Inr w"
| "find_top h node nameToNode (oid # oids) w =
     (case getMetricNode h oid node nameToNode of
        (Some metricNode, ty) \<Rightarrow> find_top h node nameToNode oids (add_top h oid metricNode ty w)
      | (None, _) \<Rightarrow> Inl (CannotFindOid oid))"

section \<open>The metrics\<close>

text \<open>\<open>xs[:len(xs)-k]\<close>, which panics when the bound is negative.\<close>

definition drop_end :: "nat \<Rightarrow> 'a list \<Rightarrow> 'a list go" where
  "drop_end k xs = (if length xs < k then Inl IndexOutOfRange else Inr (take (length xs - k) xs))"

text \<open>An index and the subtype before it become one; \<open>None\<close> when that is missing.\<close>

definition combine_index :: "string \<Rightarrow> string \<Rightarrow> string \<Rightarrow> Index list \<Rightarrow> Index list option go" where
  "combine_index prevType prev2Type t indexes =
    (case map_of combinedTypes t of
       None \<Rightarrow> Inr (Some indexes)
     | Some subtype \<Rightarrow>
         if subtype = prevType then bindG (drop_end 1 indexes) (\<lambda>is. Inr (Some is))
         else if subtype = prev2Type then bindG (drop_end 2 indexes) (\<lambda>is. Inr (Some is))
         else Inr None)"

text \<open>The type of an index or a lookup: enumerations that are not state sets become labels.\<close>

definition enum_type :: "Node \<Rightarrow> string \<Rightarrow> string" where
  "enum_type n t = (if n_EnumValues n \<noteq> [] \<and> t \<noteq> ''EnumAsStateSet'' \<and> n_Type n \<noteq> ''gauge''
     then ''EnumAsInfo'' else t)"

text \<open>The loop over the indexes; \<open>None\<close> when the metric cannot be exported.\<close>

fun metric_indexes ::
  "heap \<Rightarrow> names \<Rightarrow> bool \<Rightarrow> string \<Rightarrow> string \<Rightarrow> Index list \<Rightarrow> string list \<Rightarrow> Index list option go" where
  "metric_indexes h nameToNode implied prevType prev2Type indexes [] = Inr (Some indexes)"
| "metric_indexes h nameToNode implied prevType prev2Type indexes (i # rest) =
    (case map_of nameToNode i of
       None \<Rightarrow> Inr None
     | Some indexNode \<Rightarrow>
        (case metricType (n_Type (h (root indexNode))) of
           None \<Rightarrow> Inr None
         | Some t \<Rightarrow>
             let n = h (root indexNode);
                 index = \<lparr>index_Labelname = i, index_Type = enum_type n t,
                   index_FixedSize = n_FixedSize n, index_Implied = (implied \<and> rest = []),
                   index_EnumValues = n_EnumValues n\<rparr>
             in bindG (combine_index prevType prev2Type (index_Type index) indexes)
                  (\<lambda>r. case r of
                     None \<Rightarrow> Inr None
                   | Some is \<Rightarrow> metric_indexes h nameToNode implied (n_TextualConvention n) prevType
                                  (is @ [index]) rest)))"

definition mib_metric ::
  "heap \<Rightarrow> names \<Rightarrow> (string \<times> MetricOverrides) list \<Rightarrow> shape \<Rightarrow> Metric option go" where
  "mib_metric h nameToNode ovs s = (let n = h (root s) in
     case metricType (n_Type n) of
       None \<Rightarrow> Inr None
     | Some t \<Rightarrow>
         if \<not> metricAccess (n_Access n) then Inr None
         else if ov_Ignore (override_of ovs (sanitizeLabelName (n_Label n))) then Inr None
         else bindG (metric_indexes h nameToNode (n_ImpliedIndex n) [] [] [] (n_Indexes n))
           (\<lambda>r. Inr (case r of
              None \<Rightarrow> None
            | Some indexes \<Rightarrow> Some
                \<lparr>metric_Name = sanitizeLabelName (n_Label n), metric_Oid = n_Oid n, metric_Type = t,
                 metric_Help = n_Description n @ '' - '' @ n_Oid n, metric_Indexes = indexes,
                 metric_Lookups = [], metric_RegexpExtracts = [], metric_DateTimePattern = [],
                 metric_EnumValues = n_EnumValues n, metric_Offset = f64_zero,
                 metric_Scale = f64_zero, metric_DisplayHint = []\<rparr>)))"

definition add_metric ::
  "heap \<Rightarrow> names \<Rightarrow> (string \<times> MetricOverrides) list \<Rightarrow> shape \<Rightarrow> Metric list go \<Rightarrow> Metric list go" where
  "add_metric h nameToNode ovs n out =
     bindG out (\<lambda>ms. bindG (mib_metric h nameToNode ovs n)
       (\<lambda>r. Inr (case r of None \<Rightarrow> ms | Some m \<Rightarrow> ms @ [m])))"

definition usable_metrics ::
  "heap \<Rightarrow> names \<Rightarrow> (string \<times> MetricOverrides) list \<Rightarrow> shape list \<Rightarrow> Metric list go" where
  "usable_metrics h nameToNode ovs metrics =
     fold (walkNode (add_metric h nameToNode ovs)) metrics (Inr [])"

section \<open>Lookups\<close>

definition filter_map :: "heap \<Rightarrow> names \<Rightarrow> StaticFilter list \<Rightarrow> (string \<times> string list) list" where
  "filter_map h nameToNode fs =
     fold (\<lambda>f. fold (\<lambda>oid. AList.update (resolve h nameToNode oid) (static_Indices f)) (static_Targets f)) fs []"

definition foundIndexes :: "Metric \<Rightarrow> GenLookup \<Rightarrow> nat" where
  "foundIndexes m l = length (filter (\<lambda>(index, i). index_Labelname index = i)
     (List.product (metric_Indexes m) (SourceIndexes l)))"

text \<open>The OIDs of a looked-up object: of the instances of the metric, or all of them.\<close>

definition need_with :: "string \<Rightarrow> string \<Rightarrow> walks \<Rightarrow> walks" where
  "need_with metricOid oid w =
    (if instances_of w metricOid \<noteq> []
     then fold (\<lambda>index. need (oid @ index @ ''.'')) (instances_of w metricOid) w
     else need oid w)"

text \<open>A filter takes the place of the walk of an OID: its instances are fetched.\<close>

definition filter_walk :: "string \<Rightarrow> string list \<Rightarrow> walks \<Rightarrow> walks" where
  "filter_walk oid indices w = fold (\<lambda>index. need (oid @ ''.'' @ index @ ''.'')) indices (unneed oid w)"

definition lookup_hint :: "Node \<Rightarrow> string \<Rightarrow> string" where
  "lookup_hint n hint = (if hint = ''@mib'' then n_Hint n else hint)"

definition new_lookup :: "Node \<Rightarrow> string \<Rightarrow> GenLookup \<Rightarrow> Lookup" where
  "new_lookup n typ l =
    \<lparr>lookup_Labels = map sanitizeLabelName (SourceIndexes l), lookup_Labelname = sanitizeLabelName (n_Label n),
     lookup_Oid = n_Oid n, lookup_Type = typ, lookup_DisplayHint = lookup_hint n (gl_DisplayHint l),
     lookup_EnumValues = n_EnumValues n\<rparr>"

definition add_lookup :: "Node \<Rightarrow> Lookup \<Rightarrow> string list \<Rightarrow> Metric \<Rightarrow> Metric" where
  "add_lookup n l requiredAsIndex m =
    (let m = m\<lparr>metric_Lookups := metric_Lookups m @ [l]\<rparr>
     in if lookup_Labelname l \<in> set requiredAsIndex
        then m\<lparr>metric_Indexes := metric_Indexes m @
          [\<lparr>index_Labelname = lookup_Labelname l, index_Type = lookup_Type l, index_FixedSize = 0,
            index_Implied = False, index_EnumValues = n_EnumValues n\<rparr>]\<rparr>
        else m)"

definition apply_lookup ::
  "heap \<Rightarrow> names \<Rightarrow> (string \<times> string list) list \<Rightarrow> string list \<Rightarrow> GenLookup
   \<Rightarrow> Metric \<times> string list \<times> walks \<Rightarrow> gen_error + Metric \<times> string list \<times> walks" where
  "apply_lookup h nameToNode filterMap requiredAsIndex l s = (case s of (m, toDelete, w) \<Rightarrow>
     if foundIndexes m l \<noteq> length (SourceIndexes l) then Inr (m, toDelete, w)
     else if map_of nameToNode (gl_Lookup l) = None then Inl (UnknownIndex (gl_Lookup l))
     else case getIndexNode h (gl_Lookup l) nameToNode (metric_Oid m) of
       None \<Rightarrow> Inl (UnknownIndex (gl_Lookup l))
     | Some indexNode \<Rightarrow> (let n = h (root indexNode) in
         case metricType (n_Type n) of
           None \<Rightarrow> Inl (UnknownLookupType (n_Type n) (gl_Lookup l))
         | Some typ \<Rightarrow>
             let lk = new_lookup n (enum_type n typ) l;
                 w = need_with (metric_Oid m) (n_Oid n) w;
                 w = (case map_of filterMap (n_Oid n) of
                        None \<Rightarrow> w | Some indices \<Rightarrow> filter_walk (metric_Oid m) indices w)
             in Inr (add_lookup n lk requiredAsIndex m,
                  (if DropSourceIndexes l then toDelete @ SourceIndexes l else toDelete), w)))"

fun foldE :: "('a \<Rightarrow> 's \<Rightarrow> 'e + 's) \<Rightarrow> 'a list \<Rightarrow> 's \<Rightarrow> 'e + 's" where
  "foldE f [] s = Inr s"
| "foldE f (x # xs) s = (case f x s of Inl e \<Rightarrow> Inl e | Inr t \<Rightarrow> foldE f xs t)"

text \<open>A lookup without an OID removes the label.\<close>

definition delete_label :: "string \<Rightarrow> Metric \<Rightarrow> Metric" where
  "delete_label l m = m\<lparr>metric_Lookups := metric_Lookups m @
     [\<lparr>lookup_Labels = [], lookup_Labelname = sanitizeLabelName l, lookup_Oid = [], lookup_Type = [],
       lookup_DisplayHint = [], lookup_EnumValues = []\<rparr>]\<rparr>"

definition metric_lookups ::
  "heap \<Rightarrow> names \<Rightarrow> (string \<times> string list) list \<Rightarrow> GenLookup list \<Rightarrow> Metric \<Rightarrow> Metric list \<times> walks
   \<Rightarrow> gen_error + Metric list \<times> walks" where
  "metric_lookups h nameToNode filterMap lookups m s = (case s of (out, w) \<Rightarrow>
     case foldE (apply_lookup h nameToNode filterMap (concat (map SourceIndexes lookups))) lookups (m, [], w) of
       Inl e \<Rightarrow> Inl e
     | Inr (m', toDelete, w') \<Rightarrow> Inr (out @ [fold delete_label toDelete m'], w'))"

section \<open>The last phases\<close>

definition sanitize_indexes :: "Metric \<Rightarrow> Metric" where
  "sanitize_indexes m = m\<lparr>metric_Indexes :=
     map (\<lambda>i. i\<lparr>index_Labelname := sanitizeLabelName (index_Labelname i)\<rparr>) (metric_Indexes m)\<rparr>"

text \<open>The object before an InetAddress has to be its type.\<close>

definition check_inet :: "heap \<Rightarrow> names \<Rightarrow> Metric \<Rightarrow> Metric list \<times> walks \<Rightarrow> Metric list \<times> walks" where
  "check_inet h nameToNode m s = (case s of (out, w) \<Rightarrow>
     if metric_Type m \<noteq> ''InetAddress'' \<and> metric_Type m \<noteq> ''InetAddressMissingSize'' then (out @ [m], w)
     else let prevOid = getPrevOid (metric_Oid m) in
       if (case map_of nameToNode prevOid of
             None \<Rightarrow> True | Some p \<Rightarrow> n_TextualConvention (h (root p)) \<noteq> ''InetAddressType'')
       then (out @ [m\<lparr>metric_Type := ''OctetString''\<rparr>], w)
       else (out @ [m], need_with (metric_Oid m) prevOid w))"

definition override_hint :: "heap \<Rightarrow> names \<Rightarrow> string \<Rightarrow> Metric \<Rightarrow> Metric" where
  "override_hint h nameToNode hint m =
    (if hint = [] then m
     else if hint = ''@mib'' then
       (case map_of nameToNode (metric_Oid m) of
          None \<Rightarrow> m
        | Some n \<Rightarrow> if n_Hint (h (root n)) \<noteq> [] then m\<lparr>metric_DisplayHint := n_Hint (h (root n))\<rparr> else m)
     else m\<lparr>metric_DisplayHint := hint\<rparr>)"

definition override_metric :: "heap \<Rightarrow> names \<Rightarrow> string \<times> MetricOverrides \<Rightarrow> Metric \<Rightarrow> Metric" where
  "override_metric h nameToNode e m = (case e of (name, params) \<Rightarrow>
     if name \<noteq> metric_Name m \<and> name \<noteq> metric_Oid m then m
     else let m = m\<lparr>metric_RegexpExtracts := ov_RegexpExtracts params,
                metric_DateTimePattern := ov_DateTimePattern params,
                metric_Offset := ov_Offset params, metric_Scale := ov_Scale params\<rparr>;
              m = (if ov_Help params \<noteq> [] then m\<lparr>metric_Help := ov_Help params\<rparr> else m);
              m = (if ov_Name params \<noteq> [] then m\<lparr>metric_Name := ov_Name params\<rparr> else m)
          in override_hint h nameToNode (ov_DisplayHint params) m)"

definition apply_overrides ::
  "heap \<Rightarrow> names \<Rightarrow> (string \<times> MetricOverrides) list \<Rightarrow> Metric list \<Rightarrow> Metric list" where
  "apply_overrides h nameToNode ovs ms = fold (\<lambda>e. map (override_metric h nameToNode e)) ovs ms"

definition static_filters :: "heap \<Rightarrow> names \<Rightarrow> StaticFilter list \<Rightarrow> walks \<Rightarrow> walks" where
  "static_filters h nameToNode fs w =
     fold (\<lambda>f. fold (\<lambda>oid. filter_walk (resolve h nameToNode oid) (static_Indices f)) (static_Targets f)) fs w"

text \<open>OIDs with a trailing period go to \<open>Get\<close>, without it; \<open>k[len(k)-1:]\<close> panics on an empty one.\<close>

fun split_walks :: "string list \<Rightarrow> Module \<Rightarrow> Module go" where
  "split_walks [] out = Inr out"
| "split_walks (k # ks) out =
    (if k = [] then Inl IndexOutOfRange
     else if last k = CHR ''.'' then split_walks ks (out\<lparr>module_Get := module_Get out @ [butlast k]\<rparr>)
     else split_walks ks (out\<lparr>module_Walk := module_Walk out @ [k]\<rparr>))"

definition finish_module ::
  "ModuleConfig \<Rightarrow> heap \<Rightarrow> names \<Rightarrow> Metric list \<Rightarrow> walks \<Rightarrow> Module go" where
  "finish_module cfg h nameToNode ms w =
    (let (ms, w) = fold (check_inet h nameToNode) (map sanitize_indexes ms) ([], w);
         ms = apply_overrides h nameToNode (mc_Overrides cfg) ms;
         w = static_filters h nameToNode (filters_Static (mc_Filters cfg)) w
     in split_walks (minimizeOids (needToWalk w))
          \<lparr>module_Walk = [], module_Get = [], module_Metrics = ms, module_WalkParams = zero_WalkParams,
           module_Filters = filters_Dynamic (mc_Filters cfg)\<rparr>)"

definition generateConfigModule ::
  "ModuleConfig \<Rightarrow> shape \<Rightarrow> names \<Rightarrow> heap \<Rightarrow> (gen_error + Module) go \<times> heap" where
  "generateConfigModule cfg node nameToNode h0 =
    (let h = fold (override_type nameToNode) (mc_Overrides cfg) h0 in
     (case to_walk h nameToNode (mc_Walk cfg) of
        Inl e \<Rightarrow> Inr (Inl e)
      | Inr oids \<Rightarrow>
         (case find_top h node nameToNode (minimizeOids oids)
              \<lparr>needToWalk = [], tableInstances = [], metricNodes = []\<rparr> of
            Inl e \<Rightarrow> Inr (Inl e)
          | Inr w \<Rightarrow>
              bindG (usable_metrics h nameToNode (mc_Overrides cfg) (sort_key (oid_at h) (metricNodes w)))
                (\<lambda>ms. case foldE (metric_lookups h nameToNode
                        (filter_map h nameToNode (filters_Static (mc_Filters cfg))) (mc_Lookups cfg)) ms ([], w) of
                    Inl e \<Rightarrow> Inr (Inl e)
                  | Inr (ms', w') \<Rightarrow>
                      bindG (finish_module cfg h nameToNode ms' w') (\<lambda>out. Inr (Inr out)))), h))"

end
