(* ===== verification/GoTime.thy ===== *)
theory GoTime
  imports GoStrings
begin

text \<open>
  The part of Go's \<open>time\<close> package the source uses: \<open>time.Date\<close> followed by \<open>Unix\<close>, with its
  normalisation of months, days, hours, minutes, seconds and nanoseconds that are out of range,
  and the reading of a numeric zone with the layout \<open>-0700\<close>. A location is the offset of a
  fixed zone, in seconds east of UTC. Shown: the day count is the proleptic Gregorian calendar's
  (it starts at 0 on 1 January 1970 and grows by one from each date to the next).
\<close>

definition leap_year :: "int \<Rightarrow> bool" where
  "leap_year y \<longleftrightarrow> y mod 4 = 0 \<and> (y mod 100 \<noteq> 0 \<or> y mod 400 = 0)"

definition days_before_month :: "int list" where
  "days_before_month = [0, 31, 59, 90, 120, 151, 181, 212, 243, 273, 304, 334]"

text \<open>Days from 1 January 1970 to 1 January of a year.\<close>

definition days_to_year :: "int \<Rightarrow> int" where
  "days_to_year y = 365 * (y - 1970) + ((y - 1) div 4 - 492) - ((y - 1) div 100 - 19)
     + ((y - 1) div 400 - 4)"

text \<open>Days from 1 January 1970 to a day of a month, the month counted from 0 and normalised.\<close>

definition unix_days :: "int \<Rightarrow> int \<Rightarrow> int \<Rightarrow> int" where
  "unix_days year month day =
     (let y = year + (month - 1) div 12; m = (month - 1) mod 12
      in days_to_year y + days_before_month ! nat m + (if leap_year y \<and> 2 \<le> m then 1 else 0)
         + (day - 1))"

definition date_unix :: "int \<Rightarrow> int \<Rightarrow> int \<Rightarrow> int \<Rightarrow> int \<Rightarrow> int \<Rightarrow> int \<Rightarrow> int \<Rightarrow> int" where
  "date_unix year month day hour minute sec nsec zone =
     86400 * unix_days year month day + 3600 * hour + 60 * minute + sec + nsec div 10 ^ 9 - zone"

text \<open>
  \<open>time.Parse("-0700", s)\<close>: a sign, two digits of hours up to 24, two digits of minutes up to
  60, and nothing more.
\<close>

definition two_digits :: "char \<Rightarrow> char \<Rightarrow> nat option" where
  "two_digits a b = (if is_digit a \<and> is_digit b then Some (10 * digit_val a + digit_val b) else None)"

definition parse_zone :: "string \<Rightarrow> int option" where
  "parse_zone s =
     (if length s \<noteq> 5 \<or> s ! 0 \<notin> set ''+-'' then None
      else case (two_digits (s ! 1) (s ! 2), two_digits (s ! 3) (s ! 4)) of
        (Some h, Some m) \<Rightarrow>
          if 24 < h \<or> 60 < m then None
          else Some ((if s ! 0 = CHR ''-'' then - 1 else 1) * (3600 * int h + 60 * int m))
      | _ \<Rightarrow> None)"

section \<open>The calendar\<close>

definition month_days :: "int \<Rightarrow> int \<Rightarrow> int" where
  "month_days y m = (if m = 2 then (if leap_year y then 29 else 28)
     else if m = 4 \<or> m = 6 \<or> m = 9 \<or> m = 11 then 30 else 31)"

definition valid_date :: "int \<Rightarrow> int \<Rightarrow> int \<Rightarrow> bool" where
  "valid_date y m d \<longleftrightarrow> 1 \<le> m \<and> m \<le> 12 \<and> 1 \<le> d \<and> d \<le> month_days y m"

fun next_day :: "int \<times> int \<times> int \<Rightarrow> int \<times> int \<times> int" where
  "next_day (y, m, d) =
     (if d < month_days y m then (y, m, d + 1)
      else if m < 12 then (y, m + 1, 1)
      else (y + 1, 1, 1))"

lemma div_pred:
  assumes "1 < (n :: int)"
  shows "y div n - (y - 1) div n = (if y mod n = 0 then 1 else 0)"
proof (cases "y mod n = 0")
  case True
  then have y: "y = n * (y div n)" using mult_div_mod_eq [of n y] by simp
  then have "y - 1 = n * (y div n - 1) + (n - 1)" by (simp add: algebra_simps)
  from int_div_pos_eq [OF this] assms True show ?thesis by simp
next
  case False
  with assms have r: "0 < y mod n" by (simp add: less_le)
  have "y - 1 = n * (y div n) + (y mod n - 1)" using mult_div_mod_eq [of n y] by simp
  moreover have "0 \<le> y mod n - 1" "y mod n - 1 < n"
    using assms r pos_mod_bound [of n y] by linarith+
  ultimately have "(y - 1) div n = y div n" by (rule int_div_pos_eq)
  with False show ?thesis by simp
qed

lemma days_to_year_Suc:
  "days_to_year (y + 1) = days_to_year y + (if leap_year y then 366 else 365)"
proof -
  have m: "y mod 400 = 0 \<Longrightarrow> y mod 100 = 0" "y mod 100 = 0 \<Longrightarrow> y mod 4 = 0"
    unfolding mod_eq_0_iff_dvd by (erule dvd_trans [rotated], simp)+
  have "days_to_year (y + 1) - days_to_year y = 365 + (y div 4 - (y - 1) div 4)
      - (y div 100 - (y - 1) div 100) + (y div 400 - (y - 1) div 400)"
    unfolding days_to_year_def add_diff_cancel_right' by algebra
  also have "\<dots> = 365 + (if y mod 4 = 0 then 1 else 0)
      - (if y mod 100 = 0 then 1 else 0) + (if y mod 400 = 0 then 1 else 0)"
    by (subst (1 2 3) div_pred) simp_all
  also have "\<dots> = (if leap_year y then 366 else 365)"
    unfolding leap_year_def using m
    by (cases "y mod 4 = 0"; cases "y mod 100 = 0"; cases "y mod 400 = 0"; simp)
  finally show ?thesis by simp
qed

lemma unix_days_epoch: "unix_days 1970 1 1 = 0"
  by (simp add: unix_days_def days_to_year_def days_before_month_def)

lemma month_cases:
  assumes "1 \<le> m" "m \<le> (12 :: int)"
  obtains "m = 1" | "m = 2" | "m = 3" | "m = 4" | "m = 5" | "m = 6" | "m = 7" | "m = 8"
    | "m = 9" | "m = 10" | "m = 11" | "m = 12"
proof -
  have "m = 1 \<or> m = 2 \<or> m = 3 \<or> m = 4 \<or> m = 5 \<or> m = 6 \<or> m = 7 \<or> m = 8
      \<or> m = 9 \<or> m = 10 \<or> m = 11 \<or> m = 12"
    using assms by presburger
  then show thesis using that by blast
qed

lemma unix_days_month:
  assumes "1 \<le> m" "m < 12"
  shows "unix_days y (m + 1) 1 = unix_days y m 1 + month_days y m"
proof -
  have "m \<le> 12" using assms by simp
  with assms(1) show ?thesis
    by (rule month_cases)
      (use assms(2) in \<open>simp_all add: unix_days_def month_days_def days_before_month_def Let_def\<close>)
qed

lemma unix_days_day: "unix_days y m (d + 1) = unix_days y m d + 1"
  by (simp add: unix_days_def Let_def)

lemma unix_days_first: "unix_days y m d = unix_days y m 1 + (d - 1)"
  by (simp add: unix_days_def Let_def)

lemma unix_days_year: "unix_days (y + 1) 1 1 = unix_days y 12 1 + 31"
  by (simp add: unix_days_def days_before_month_def Let_def days_to_year_Suc)

lemma unix_days_next_day:
  assumes "valid_date y m d" and "next_day (y, m, d) = (y', m', d')"
  shows "unix_days y' m' d' = unix_days y m d + 1"
proof -
  consider "d < month_days y m" | "d = month_days y m" "m < 12" | "d = month_days y m" "m = 12"
    using assms(1) by (fastforce simp: valid_date_def)
  then show ?thesis
  proof cases
    case 1
    with assms(2) show ?thesis by (auto simp: unix_days_day)
  next
    case 2
    with assms unix_days_month [of m y] unix_days_first [of y m d] show ?thesis
      by (auto simp: valid_date_def)
  next
    case 3
    with assms unix_days_year [of y] unix_days_first [of y 12 d] show ?thesis
      by (auto simp: month_days_def)
  qed
qed

text \<open>The day after a valid date, across months, years and leap days, has the next number.\<close>

lemma calendar_next_day:
  assumes "valid_date y m d" and "next_day (y, m, d) = (y', m', d')"
  shows "unix_days 1970 1 1 = 0 \<and> unix_days y' m' d' = unix_days y m d + 1"
  using unix_days_next_day [OF assms] unix_days_epoch by simp

end
