(* ===== verification/IndexOids.thy ===== *)
theory IndexOids
  imports Oid Config
begin

text \<open>
  \<open>indexOidsAsString\<close> of \<open>collector/collector.go\<close>: the text of one table index, read off the
  index part of an OID, with the OIDs it used and those left over; and \<open>combinedTypeMapping\<close>,
  the types that are preceded by an enumeration of their actual type. Shown: no OID is lost
  or invented but for trailing zeros, the known types never panic on OIDs from the wire, and
  the texts are what the types prescribe.
\<close>

section \<open>The code\<close>

definition combinedTypeMapping :: "(string \<times> (int \<times> string) list) list" where
  "combinedTypeMapping =
    [(''InetAddress'', [(1, ''InetAddressIPv4''), (2, ''InetAddressIPv6'')]),
     (''InetAddressMissingSize'', [(1, ''InetAddressIPv4''), (2, ''InetAddressIPv6'')]),
     (''LldpPortId'', [(1, ''DisplayString''), (2, ''DisplayString''), (3, ''PhysAddress48''),
        (5, ''DisplayString''), (7, ''DisplayString'')])]"

text \<open>The result of the function: the text, the OIDs used, the OIDs left.\<close>

type_synonym index_result = "string \<times> int list \<times> int list"

text \<open>\<open>byte(o)\<close>.\<close>

definition byte_of :: "int \<Rightarrow> nat" where
  "byte_of i = nat (i mod 256)"

text \<open>
  The part \<open>OctetString\<close> and \<open>DisplayString\<close> share: the length comes from the MIB, from an
  implied index or from the first OID; then so many OIDs, each cut to a byte.
\<close>

definition index_octets :: "int list \<Rightarrow> int \<Rightarrow> bool \<Rightarrow> (nat list \<times> int list \<times> int list) go" where
  "index_octets indexOids fixedSize implied =
     (let len0 = (if implied then int (length indexOids) else fixedSize) in
      bindG (if len0 = 0
             then bindG (splitOid indexOids 1) (\<lambda>(subOid, rest). Inr (subOid, rest, subOid ! 0))
             else Inr ([], indexOids, len0))
        (\<lambda>(subOid, rest, len).
          bindG (splitOid rest len) (\<lambda>(content, rest').
            Inr (map byte_of content, subOid @ content, rest'))))"

fun pair_up :: "string list \<Rightarrow> string list" where
  "pair_up (a # b # ws) = (a @ b) # pair_up ws"
| "pair_up ws = ws"

text \<open>The switch over the types that stand for themselves.\<close>

definition index_switch ::
  "int list \<Rightarrow> string \<Rightarrow> int \<Rightarrow> bool \<Rightarrow> enum_values \<Rightarrow> index_result go" where
  "index_switch indexOids typ fixedSize implied enumValues =
     (if typ \<in> set [''Integer32'', ''Integer'', ''gauge'', ''counter''] then
        bindG (splitOid indexOids 1) (\<lambda>(subOid, rest). Inr (itoa (subOid ! 0), subOid, rest))
      else if typ = ''PhysAddress48'' then
        bindG (splitOid indexOids 6) (\<lambda>(subOid, rest).
          Inr (join '':'' (map sprintf_02X subOid), subOid, rest))
      else if typ = ''OctetString'' then
        bindG (index_octets indexOids fixedSize implied) (\<lambda>(parts, subOid, rest).
          Inr (if parts = [] then [] else ''0x'' @ sprintf_X parts, subOid, rest))
      else if typ = ''DisplayString'' then
        bindG (index_octets indexOids fixedSize implied) (\<lambda>(parts, subOid, rest).
          Inr (map char_of parts, subOid, rest))
      else if typ = ''InetAddressIPv4'' then
        bindG (splitOid indexOids 4) (\<lambda>(subOid, rest).
          Inr (join ''.'' (map itoa subOid), subOid, rest))
      else if typ = ''InetAddressIPv6'' then
        bindG (splitOid indexOids 16) (\<lambda>(subOid, rest).
          Inr (join '':'' (pair_up (map sprintf_02X subOid)), subOid, rest))
      else if typ = ''EnumAsInfo'' then
        bindG (splitOid indexOids 1) (\<lambda>(subOid, rest).
          Inr (case map_of enumValues (subOid ! 0) of Some v \<Rightarrow> v | None \<Rightarrow> itoa (subOid ! 0),
               subOid, rest))
      else Inl (UnknownIndexType typ))"

lemma combined_targets:
  "map_of combinedTypeMapping typ = Some m \<Longrightarrow> map_of m i = Some t \<Longrightarrow>
   t \<in> {''InetAddressIPv4'', ''InetAddressIPv6'', ''DisplayString'', ''PhysAddress48''}"
  by (auto simp: combinedTypeMapping_def split: if_splits)

lemma combined_target_plain:
  "map_of combinedTypeMapping typ = Some m \<Longrightarrow> map_of m i = Some t \<Longrightarrow>
   map_of combinedTypeMapping t = None"
  by (drule (1) combined_targets) (auto simp: combinedTypeMapping_def)

lemma combined_OctetString [simp]: "map_of combinedTypeMapping ''OctetString'' = None"
  by (simp add: combinedTypeMapping_def)

function indexOidsAsString ::
  "int list \<Rightarrow> string \<Rightarrow> int \<Rightarrow> bool \<Rightarrow> enum_values \<Rightarrow> index_result go" where
  "indexOidsAsString indexOids typ fixedSize implied enumValues =
     (case map_of combinedTypeMapping typ of
        None \<Rightarrow> index_switch indexOids typ fixedSize implied enumValues
      | Some typeMapping \<Rightarrow>
          bindG (splitOid indexOids (if typ = ''InetAddressMissingSize'' then 1 else 2))
            (\<lambda>(subOid, valueOids).
              case map_of typeMapping (subOid ! 0) of
                Some t \<Rightarrow>
                  bindG (indexOidsAsString valueOids t 0 False enumValues)
                    (\<lambda>(str, used, remaining). Inr (str, subOid @ used, remaining))
              | None \<Rightarrow>
                  if typ = ''InetAddressMissingSize''
                  then indexOidsAsString indexOids ''OctetString'' 0 True enumValues
                  else indexOidsAsString indexOids ''OctetString'' (i64 (subOid ! 1 + 2)) False enumValues))"
  by pat_completeness auto
termination
  by (relation "measure (\<lambda>(oids, ty, fs, im, ev).
        if map_of combinedTypeMapping ty = None then 0 else 1)")
    (auto dest: combined_target_plain)

declare indexOidsAsString.simps [simp del]

text \<open>The switch is reached from every combined type, and only with these types.\<close>

lemma indexOidsAsString_plain:
  "map_of combinedTypeMapping typ = None \<Longrightarrow>
   indexOidsAsString oids typ fs im ev = index_switch oids typ fs im ev"
  by (subst indexOidsAsString.simps) simp

lemma combined_DisplayString [simp]: "map_of combinedTypeMapping ''DisplayString'' = None"
  by (simp add: combinedTypeMapping_def)

section \<open>Conservation: used and remaining OIDs are the input\<close>

definition conserves :: "int list \<Rightarrow> int list \<Rightarrow> int list \<Rightarrow> bool" where
  "conserves oids used rest \<longleftrightarrow>
     (\<exists>k. used @ rest = oids @ replicate k 0 \<and> (0 < k \<longrightarrow> rest = []))"

lemma conserves_splitOid: "splitOid oids n = Inr (h, t) \<Longrightarrow> conserves oids h t"
  using splitOid_conserves(1) by (simp add: conserves_def)

lemma conserves_trans:
  assumes "conserves oids a r" and "conserves r b t"
  shows "conserves oids (a @ b) t"
proof -
  from assms obtain j k where
    j: "a @ r = oids @ replicate j 0" "0 < j \<longrightarrow> r = []" and
    k: "b @ t = r @ replicate k 0" "0 < k \<longrightarrow> t = []"
    by (auto simp: conserves_def)
  show ?thesis
  proof (cases "j = 0")
    case True
    with j k have "(a @ b) @ t = oids @ replicate k 0 \<and> (0 < k \<longrightarrow> t = [])" by simp
    then show ?thesis unfolding conserves_def by blast
  next
    case False
    with j have r: "r = []" by simp
    with k have "t = []" by (cases k) auto
    moreover from k r have "b @ t = replicate k 0" by simp
    ultimately have "(a @ b) @ t = oids @ replicate (j + k) 0 \<and> (0 < j + k \<longrightarrow> t = [])"
      using j(1) r by (simp add: replicate_add)
    then show ?thesis unfolding conserves_def by blast
  qed
qed

lemma index_octets_conserves:
  assumes "index_octets oids fs im = Inr (parts, used, rest)"
  shows "conserves oids used rest"
proof (cases "(if im then int (length oids) else fs) = 0")
  case True
  with assms obtain h t c where "splitOid oids 1 = Inr (h, t)" "splitOid t (h ! 0) = Inr (c, rest)"
      "used = h @ c"
    by (auto simp: index_octets_def Let_def split: prod.splits)
  then show ?thesis using conserves_splitOid conserves_trans by blast
next
  case False
  with assms have "splitOid oids (if im then int (length oids) else fs) = Inr (used, rest)"
    by (auto simp: index_octets_def Let_def split: prod.splits)
  then show ?thesis by (rule conserves_splitOid)
qed

lemma index_switch_conserves:
  "index_switch oids typ fs im ev = Inr (str, used, rest) \<Longrightarrow> conserves oids used rest"
  by (auto simp: index_switch_def split: if_splits dest: conserves_splitOid index_octets_conserves)

lemma indexOidsAsString_conserves:
  "indexOidsAsString oids typ fs im ev = Inr (str, used, rest) \<Longrightarrow> conserves oids used rest"
proof (induction oids "typ" fs im ev arbitrary: str used rest rule: indexOidsAsString.induct)
  case (1 oids ty fs im ev)
  show ?case
  proof (cases "map_of combinedTypeMapping ty")
    case None
    with "1.prems" show ?thesis by (simp add: indexOidsAsString_plain index_switch_conserves)
  next
    case (Some m)
    with "1.prems" obtain h t where
      s: "splitOid oids (if ty = ''InetAddressMissingSize'' then 1 else 2) = Inr (h, t)"
      by (subst (asm) indexOidsAsString.simps) (auto split: prod.splits)
    show ?thesis
    proof (cases "map_of m (h ! 0)")
      case None
      with Some s "1.prems" obtain fs' im' where
        "indexOidsAsString oids ''OctetString'' fs' im' ev = Inr (str, used, rest)"
        by (subst (asm) indexOidsAsString.simps) (auto split: if_splits)
      then show ?thesis by (simp add: indexOidsAsString_plain index_switch_conserves)
    next
      case (Some t')
      with \<open>map_of combinedTypeMapping ty = Some m\<close> s "1.prems" obtain u where
        "indexOidsAsString t t' 0 False ev = Inr (str, u, rest)" and used: "used = h @ u"
        by (subst (asm) indexOidsAsString.simps) auto
      then have "conserves t u rest"
        using combined_target_plain [OF \<open>map_of combinedTypeMapping ty = Some m\<close> Some]
        by (simp add: indexOidsAsString_plain index_switch_conserves)
      with conserves_splitOid [OF s] used show ?thesis by (simp add: conserves_trans)
    qed
  qed
qed

section \<open>Known types do not panic on OIDs from the wire\<close>

text \<open>Sub-identifiers of an SNMP OID are unsigned 32-bit numbers.\<close>

definition wire_oid :: "int list \<Rightarrow> bool" where
  "wire_oid oids \<longleftrightarrow> list_all (\<lambda>o'. 0 \<le> o' \<and> o' < 2 ^ 32) oids"

definition known_index_types :: "string list" where
  "known_index_types = [''Integer32'', ''Integer'', ''gauge'', ''counter'', ''PhysAddress48'',
     ''OctetString'', ''DisplayString'', ''InetAddressIPv4'', ''InetAddressIPv6'', ''EnumAsInfo'',
     ''InetAddress'', ''InetAddressMissingSize'', ''LldpPortId'']"

lemma wire_oid_Nil [simp]: "wire_oid []"
  by (simp add: wire_oid_def)

lemma wire_oid_append [simp]: "wire_oid (a @ b) \<longleftrightarrow> wire_oid a \<and> wire_oid b"
  by (auto simp: wire_oid_def)

lemma splitOid_wire:
  assumes "wire_oid oids" and "0 \<le> n"
  obtains h t where "splitOid oids n = Inr (h, t)" "wire_oid h" "wire_oid t" "int (length h) = n"
proof -
  obtain h t where s: "splitOid oids n = Inr (h, t)" using splitOid_total [OF assms(2)] by blast
  then have h: "h = take (nat n) oids @ replicate (nat n - length oids) 0" "t = drop (nat n) oids"
    by (auto simp: splitOid_def Let_def split: if_splits)
  have "wire_oid (take (nat n) oids @ drop (nat n) oids)" using assms(1) by simp
  then have "wire_oid h" "wire_oid t"
    using h by (auto simp only: wire_oid_append) (simp_all add: wire_oid_def list_all_iff)
  with s splitOid_conserves(2) [OF s] that show thesis by blast
qed

lemma wire_nth: "wire_oid oids \<Longrightarrow> i < length oids \<Longrightarrow> 0 \<le> oids ! i \<and> oids ! i < 2 ^ 32"
  unfolding wire_oid_def by (drule (1) list_all_nth_less) simp

lemma index_octets_total:
  assumes "wire_oid oids" and "0 \<le> fs"
  shows "\<exists>parts used rest. index_octets oids fs im = Inr (parts, used, rest)"
proof (cases "(if im then int (length oids) else fs) = 0")
  case True
  obtain h t where s: "splitOid oids 1 = Inr (h, t)" "wire_oid h" "wire_oid t" "int (length h) = 1"
    using splitOid_wire [OF assms(1), of 1] by auto
  then have "0 \<le> h ! 0" using wire_nth [of h 0] by auto
  then obtain c r where "splitOid t (h ! 0) = Inr (c, r)" using splitOid_total by blast
  with True s show ?thesis by (simp add: index_octets_def Let_def)
next
  case False
  then obtain c r where "splitOid oids (if im then int (length oids) else fs) = Inr (c, r)"
    using splitOid_total [of "if im then int (length oids) else fs" oids] assms(2) by (auto split: if_splits)
  with False show ?thesis by (simp add: index_octets_def Let_def)
qed

lemma index_switch_total:
  assumes "wire_oid oids" and "0 \<le> fs"
    and "typ \<in> set known_index_types" "map_of combinedTypeMapping typ = None"
  shows "\<exists>r. index_switch oids typ fs im ev = Inr r"
proof -
  obtain h1 t1 where s1: "splitOid oids 1 = Inr (h1, t1)" using splitOid_total [of 1 oids] by auto
  obtain h4 t4 where s4: "splitOid oids 4 = Inr (h4, t4)" using splitOid_total [of 4 oids] by auto
  obtain h6 t6 where s6: "splitOid oids 6 = Inr (h6, t6)" using splitOid_total [of 6 oids] by auto
  obtain h16 t16 where s16: "splitOid oids 16 = Inr (h16, t16)" using splitOid_total [of 16 oids] by auto
  obtain parts used rest where o': "index_octets oids fs im = Inr (parts, used, rest)"
    using index_octets_total [OF assms(1,2)] by blast
  have "typ \<noteq> ''InetAddress''" "typ \<noteq> ''InetAddressMissingSize''" "typ \<noteq> ''LldpPortId''"
    using assms(4) by (auto simp: combinedTypeMapping_def)
  with assms(3) show ?thesis
    by (simp add: index_switch_def known_index_types_def s1 s4 s6 s16 o' del: ex_simps) (elim disjE; simp)
qed

lemma indexOidsAsString_total:
  assumes "wire_oid oids" and "0 \<le> fs" and "typ \<in> set known_index_types"
  shows "\<exists>r. indexOidsAsString oids typ fs im ev = Inr r"
proof (cases "map_of combinedTypeMapping typ")
  case None
  with assms show ?thesis using index_switch_total by (metis indexOidsAsString_plain)
next
  case (Some m)
  let ?n = "if typ = ''InetAddressMissingSize'' then 1 else 2 :: int"
  have "0 \<le> ?n" by simp
  from assms(1) this obtain h t where
    s: "splitOid oids ?n = Inr (h, t)" "wire_oid h" "wire_oid t" "int (length h) = ?n"
    by (rule splitOid_wire)
  have octets: "\<exists>r. indexOidsAsString oids ''OctetString'' f i ev = Inr r" if "0 \<le> f" for f i
    using index_switch_total [OF assms(1) that, of "''OctetString''" i ev]
    by (simp add: indexOidsAsString_plain known_index_types_def)
  show ?thesis
  proof (cases "map_of m (h ! 0)")
    case None
    have "0 \<le> i64 (h ! 1 + 2)" if "typ \<noteq> ''InetAddressMissingSize''"
      using wire_nth [OF s(2), of 1] s(4) that by (simp add: i64_id in_i64_def)
    with octets Some None s(1) show ?thesis
      by (subst indexOidsAsString.simps) (simp split: if_splits)
  next
    case t: (Some t')
    have "t' \<in> set known_index_types"
      using combined_targets [OF Some t] by (auto simp: known_index_types_def)
    then obtain r where "indexOidsAsString t t' 0 False ev = Inr r"
      using index_switch_total [OF s(3), of 0 t' False ev] combined_target_plain [OF Some t]
      by (auto simp: indexOidsAsString_plain)
    with Some t s(1) show ?thesis
      by (subst indexOidsAsString.simps) (cases r, simp)
  qed
qed


section \<open>Reading back the SMI encoding of an index value\<close>

text \<open>
  The values a table index can have, the OIDs an agent encodes them with (RFC 2578, section
  7.7), the index entry of the configuration that describes them, and the text that should
  appear in the label.
\<close>

datatype index_value =
    IV_Int int
  | IV_Enum int
  | IV_String string
  | IV_FixedString string
  | IV_Octets "nat list"
  | IV_IPv4 "int list"
  | IV_Mac "int list"
  | IV_Inet4 "int list"

definition oids_of_string :: "string \<Rightarrow> int list" where
  "oids_of_string cs = map (\<lambda>c. int (of_char c)) cs"

fun index_encode :: "index_value \<Rightarrow> int list" where
  "index_encode (IV_Int i) = [i]"
| "index_encode (IV_Enum i) = [i]"
| "index_encode (IV_String cs) = int (length cs) # oids_of_string cs"
| "index_encode (IV_FixedString cs) = oids_of_string cs"
| "index_encode (IV_Octets bs) = int (length bs) # map int bs"
| "index_encode (IV_IPv4 a) = a"
| "index_encode (IV_Mac a) = a"
| "index_encode (IV_Inet4 a) = 1 # 4 # a"

fun index_text :: "enum_values \<Rightarrow> index_value \<Rightarrow> string" where
  "index_text ev (IV_Int i) = itoa i"
| "index_text ev (IV_Enum i) = (case map_of ev i of Some v \<Rightarrow> v | None \<Rightarrow> itoa i)"
| "index_text ev (IV_String cs) = cs"
| "index_text ev (IV_FixedString cs) = cs"
| "index_text ev (IV_Octets bs) = (if bs = [] then [] else ''0x'' @ sprintf_X bs)"
| "index_text ev (IV_IPv4 a) = listToOid a"
| "index_text ev (IV_Mac a) = join '':'' (map sprintf_02X a)"
| "index_text ev (IV_Inet4 a) = listToOid a"

fun index_type_of :: "index_value \<Rightarrow> string" where
  "index_type_of (IV_Int i) = ''gauge''"
| "index_type_of (IV_Enum i) = ''EnumAsInfo''"
| "index_type_of (IV_String cs) = ''DisplayString''"
| "index_type_of (IV_FixedString cs) = ''DisplayString''"
| "index_type_of (IV_Octets bs) = ''OctetString''"
| "index_type_of (IV_IPv4 a) = ''InetAddressIPv4''"
| "index_type_of (IV_Mac a) = ''PhysAddress48''"
| "index_type_of (IV_Inet4 a) = ''InetAddress''"

fun index_size_of :: "index_value \<Rightarrow> int" where
  "index_size_of (IV_FixedString cs) = int (length cs)"
| "index_size_of _ = 0"

fun index_value_ok :: "index_value \<Rightarrow> bool" where
  "index_value_ok (IV_FixedString cs) = (cs \<noteq> [])"
| "index_value_ok (IV_Octets bs) = list_all (\<lambda>b. b < 256) bs"
| "index_value_ok (IV_IPv4 a) = (length a = 4)"
| "index_value_ok (IV_Mac a) = (length a = 6)"
| "index_value_ok (IV_Inet4 a) = (length a = 4)"
| "index_value_ok _ = True"

lemma splitOid_append: "n = int (length h) \<Longrightarrow> splitOid (h @ t) n = Inr (h, t)"
  by (simp add: splitOid_def Let_def)

lemma splitOid_Cons: "splitOid (a # t) 1 = Inr ([a], t)"
  using splitOid_append [of 1 "[a]" t] by simp

lemma length_oids_of_string [simp]: "length (oids_of_string cs) = length cs"
  by (simp add: oids_of_string_def)

lemma oids_of_string_eq_Nil [simp]: "oids_of_string cs = [] \<longleftrightarrow> cs = []"
  by (simp add: oids_of_string_def)

lemma byte_of_oids_of_string: "map byte_of (oids_of_string cs) = map of_char cs"
  by (simp add: oids_of_string_def byte_of_def)

lemma char_of_of_char_list: "map char_of (map (of_char :: char \<Rightarrow> nat) cs) = cs"
  by (induction cs) simp_all

lemma byte_of_id: "list_all (\<lambda>b. b < 256) bs \<Longrightarrow> map byte_of (map int bs) = bs"
  by (induction bs) (simp_all add: byte_of_def)

lemma index_octets_counted:
  "n = int (length h) \<Longrightarrow>
   index_octets (n # h @ rest) 0 False = Inr (map byte_of h, n # h, rest)"
  by (simp add: index_octets_def Let_def splitOid_Cons splitOid_append)

lemma index_octets_fixed:
  "h \<noteq> [] \<Longrightarrow> n = int (length h) \<Longrightarrow>
   index_octets (h @ rest) n False = Inr (map byte_of h, h, rest)"
  by (simp add: index_octets_def Let_def splitOid_append)

lemma indexOids_IPv4:
  "length a = 4 \<Longrightarrow>
   indexOidsAsString (a @ rest) ''InetAddressIPv4'' fs im ev = Inr (listToOid a, a, rest)"
  by (auto simp: indexOidsAsString_plain combinedTypeMapping_def index_switch_def splitOid_append
      listToOid_def)

lemma indexOids_Inet4:
  assumes "length a = 4"
  shows "indexOidsAsString (1 # 4 # a @ rest) ''InetAddress'' fs im ev =
    Inr (listToOid a, 1 # 4 # a, rest)"
proof -
  have "splitOid (1 # 4 # a @ rest) 2 = Inr ([1, 4], a @ rest)"
    using splitOid_append [of 2 "[1, 4]" "a @ rest"] by simp
  then show ?thesis
    using indexOids_IPv4 [OF assms, of rest 0 False ev]
    by (subst indexOidsAsString.simps) (simp add: combinedTypeMapping_def)
qed

lemma index_roundtrip:
  assumes "index_value_ok v"
  shows "indexOidsAsString (index_encode v @ rest) (index_type_of v) (index_size_of v) False ev =
    Inr (index_text ev v, index_encode v, rest)"
proof (cases v)
  case (IV_Inet4 a)
  with assms show ?thesis by (simp add: indexOids_Inet4)
next
  case (IV_IPv4 a)
  with assms show ?thesis by (simp add: indexOids_IPv4)
next
  case (IV_String cs)
  then show ?thesis
    by (simp add: indexOidsAsString_plain index_switch_def index_octets_counted
        byte_of_oids_of_string char_of_of_char_list)
next
  case (IV_FixedString cs)
  with assms index_octets_fixed [of "oids_of_string cs" "int (length cs)" rest] show ?thesis
    by (simp add: indexOidsAsString_plain index_switch_def
        byte_of_oids_of_string char_of_of_char_list del: map_map)
next
  case (IV_Octets bs)
  with assms show ?thesis
    by (simp add: indexOidsAsString_plain index_switch_def index_octets_counted byte_of_id
        del: map_map)
qed (use assms in \<open>simp_all add: indexOidsAsString_plain combinedTypeMapping_def index_switch_def
        splitOid_Cons splitOid_append split: option.split\<close>)

section \<open>The length an OID claims\<close>

lemma splitOid_short: "splitOid [] (int n) = Inr (replicate n 0, [])"
  by (simp add: splitOid_def Let_def)

lemma indexOids_claimed_length:
  "\<exists>str. indexOidsAsString [int n] ''DisplayString'' 0 False ev = Inr (str, int n # replicate n 0, [])"
  using splitOid_Cons [of "int n" "[]"]
  by (simp add: indexOidsAsString_plain index_switch_def index_octets_def splitOid_short)

section \<open>Types the decoder does not know\<close>

lemma indexOids_unknown:
  assumes "ty \<notin> set known_index_types"
  shows "indexOidsAsString oids ty fs im ev = Inl (UnknownIndexType ty)"
proof -
  from assms have "map_of combinedTypeMapping ty = None"
    by (auto simp: known_index_types_def combinedTypeMapping_def)
  with assms show ?thesis
    by (simp add: indexOidsAsString_plain index_switch_def known_index_types_def)
qed

text \<open>What is allocated for a counted string is the number the OID claims, whatever its length.\<close>

lemma index_length_trusted:
  "\<exists>str. indexOidsAsString [int n] ''DisplayString'' 0 False ev = Inr (str, int n # replicate n 0, [])"
  using indexOids_claimed_length [of n ev] by blast

end
