(* ===== verification/Pdu.thy ===== *)
theory Pdu
  imports GoUTF8 GoTime DisplayHint IndexOids
begin

text \<open>
  SNMP variables and their values in \<open>collector/collector.go\<close>: the \<open>gosnmp.SnmpPDU\<close> the code
  reads, \<open>getPduValue\<close>, the three date parsers and \<open>pduValueAsString\<close>. What the code takes from
  outside the repository (gosnmp's \<open>ToBigInt\<close>, timefmt, and the float and regular-expression
  parts of the standard library) is a field of \<open>runtime\<close>; the predicates at the end of the
  section state the documented behaviour of those functions that theorems rely on.
\<close>

section \<open>Variables and the runtime\<close>

datatype asn1ber =
    Counter64
  | OpaqueFloat
  | OpaqueDouble
  | ObjectIdentifier
  | NoSuchObject
  | NoSuchInstance
  | EndOfMibView
  | OtherBER nat

text \<open>The dynamic Go types a value can have; \<open>GOther\<close> is any type the code does not name.\<close>

datatype goval =
    GInt int
  | GUint "64 word"
  | GUint32 "32 word"
  | GUint64 "64 word"
  | GFloat32 f64
  | GFloat64 f64
  | GString string
  | GBytes bytes
  | GNil
  | GOther string

record SnmpPDU =
  pdu_Name :: string
  pdu_Type :: asn1ber
  pdu_Value :: goval

text \<open>The exporter's own metrics that the modelled code changes.\<close>

record Metrics =
  SNMPUnexpectedPduType :: nat
  SNMPPackets :: nat
  SNMPRetries :: nat
  SNMPInflight :: int

datatype ValueType = CounterValue | GaugeValue

record PromDesc =
  fqName :: string
  descHelp :: string
  variableLabels :: "string list"

record runtime =
  wrapCounters :: bool \<comment> \<open>the flag \<open>snmp.wrap-large-counters\<close>\<close>
  ToBigInt :: "goval \<Rightarrow> int" \<comment> \<open>\<open>gosnmp.ToBigInt\<close>\<close>
  formatFloat32 :: "f64 \<Rightarrow> string" \<comment> \<open>\<open>strconv.FormatFloat(v, 'f', -1, 32)\<close>\<close>
  formatFloat64 :: "f64 \<Rightarrow> string"
  sprintUnexpected :: "goval \<Rightarrow> string" \<comment> \<open>\<open>fmt.Sprintf("%s", v)\<close>\<close>
  floatToIntOob :: "f64 \<Rightarrow> int" \<comment> \<open>\<open>int(v)\<close> out of range\<close>
  timefmtParse :: "string \<Rightarrow> string \<Rightarrow> int option" \<comment> \<open>value, pattern; Unix seconds\<close>
  matchString :: "string \<Rightarrow> string \<Rightarrow> bool option" \<comment> \<open>None: the expression does not compile\<close>
  expandMatch :: "string \<Rightarrow> string \<Rightarrow> string \<Rightarrow> string option" \<comment> \<open>expression, template, text; None: no match\<close>
  parseFloat :: "string \<Rightarrow> f64 option"
  newConstMetricError :: "PromDesc \<Rightarrow> ValueType \<Rightarrow> f64 \<Rightarrow> string list \<Rightarrow> string option"
  rangeLabels :: "(string \<times> string) list \<Rightarrow> (string \<times> string) list" \<comment> \<open>the order of \<open>range\<close>\<close>

text \<open>
  gosnmp documents \<open>ToBigInt\<close> as the integer value of the integer types and zero for the types
  that are not numbers.
\<close>

definition bigint_ok :: "runtime \<Rightarrow> bool" where
  "bigint_ok rt \<longleftrightarrow>
     (\<forall>i. ToBigInt rt (GInt i) = i) \<and> (\<forall>w. ToBigInt rt (GUint w) = sint w) \<and>
     (\<forall>w. ToBigInt rt (GUint32 w) = uint w) \<and> (\<forall>w. ToBigInt rt (GUint64 w) = uint w) \<and>
     (\<forall>b. ToBigInt rt (GBytes b) = 0) \<and> ToBigInt rt GNil = 0"

text \<open>\<open>range\<close> visits every entry of a map once, in some order.\<close>

definition range_ok :: "runtime \<Rightarrow> bool" where
  "range_ok rt \<longleftrightarrow> (\<forall>xs. distinct (map fst xs) \<longrightarrow>
     distinct (rangeLabels rt xs) \<and> set (rangeLabels rt xs) = set xs)"

section \<open>Numbers\<close>

text \<open>\<open>(*big.Int).Uint64\<close> and \<open>Int64\<close>: the low 64 bits of the absolute value, then the sign.\<close>

definition bigUint64 :: "int \<Rightarrow> 64 word" where
  "bigUint64 x = word_of_int \<bar>x\<bar>"

definition bigInt64 :: "int \<Rightarrow> int" where
  "bigInt64 x = (let v = sint (word_of_int \<bar>x\<bar> :: 64 word) in if x < 0 then i64 (- v) else v)"

definition float64Mantissa :: int where
  "float64Mantissa = 9007199254740992"

definition getPduValue :: "runtime \<Rightarrow> SnmpPDU \<Rightarrow> f64 go" where
  "getPduValue rt pdu = (case pdu_Type pdu of
       Counter64 \<Rightarrow>
         if wrapCounters rt
         then Inr (f64_of_int (uint (bigUint64 (ToBigInt rt (pdu_Value pdu))) mod float64Mantissa))
         else Inr (f64_of_int (uint (bigUint64 (ToBigInt rt (pdu_Value pdu)))))
     | OpaqueFloat \<Rightarrow> (case pdu_Value pdu of GFloat32 f \<Rightarrow> Inr f | _ \<Rightarrow> Inl TypeAssertion)
     | OpaqueDouble \<Rightarrow> (case pdu_Value pdu of GFloat64 f \<Rightarrow> Inr f | _ \<Rightarrow> Inl TypeAssertion)
     | _ \<Rightarrow> Inr (f64_of_int (bigInt64 (ToBigInt rt (pdu_Value pdu)))))"

section \<open>Text\<close>

text \<open>The default formatting of bytes, which reuses the index code; the length is made explicit.\<close>

definition bytesAsString :: "bytes \<Rightarrow> string \<Rightarrow> string go" where
  "bytesAsString v ty =
     (let ty' = (if ty = [] \<or> ty = ''Bits'' then ''OctetString'' else ty);
          parts = map uint v;
          parts' = (if ty' = ''OctetString'' \<or> ty' = ''DisplayString''
                    then int (length v) # parts else parts)
      in bindG (indexOidsAsString parts' ty' 0 False []) (\<lambda>(str, _, _). Inr (toValidUTF8 str)))"

definition pduValueAsString ::
  "runtime \<Rightarrow> SnmpPDU \<Rightarrow> string \<Rightarrow> string \<Rightarrow> Metrics \<Rightarrow> (string \<times> Metrics) go" where
  "pduValueAsString rt pdu ty displayHint metrics = (case pdu_Value pdu of
       GInt v \<Rightarrow> Inr (itoa v, metrics)
     | GUint v \<Rightarrow> Inr (formatUint 10 (unat v), metrics)
     | GUint32 v \<Rightarrow> Inr (formatUint 10 (unat v), metrics)
     | GUint64 v \<Rightarrow> Inr (formatUint 10 (unat v), metrics)
     | GFloat32 v \<Rightarrow> Inr (formatFloat32 rt v, metrics)
     | GFloat64 v \<Rightarrow> Inr (formatFloat64 rt v, metrics)
     | GString v \<Rightarrow>
         if pdu_Type pdu = ObjectIdentifier
         then (if v = [] then Inl IndexOutOfRange else Inr (tl v, metrics))
         else Inr (toValidUTF8 v, metrics)
     | GBytes v \<Rightarrow>
         (case (if displayHint \<noteq> [] \<and> (ty = [] \<or> ty = ''OctetString'')
                then applyDisplayHint displayHint v else Some None) of
            Some (Some res) \<Rightarrow> Inr (toValidUTF8 res, metrics)
          | _ \<Rightarrow> bindG (bytesAsString v ty) (\<lambda>str. Inr (str, metrics)))
     | GNil \<Rightarrow> Inr ([], metrics)
     | GOther t \<Rightarrow> Inr (sprintUnexpected rt (GOther t),
         metrics\<lparr>SNMPUnexpectedPduType := SNMPUnexpectedPduType metrics + 1\<rparr>))"

section \<open>Dates\<close>

datatype date_error =
    DateAndTimeType
  | DateAndTimeLocation
  | DateAndTimeLength nat
  | DatePattern
  | NTPTimeStampType
  | NTPTimeStampLength nat

text \<open>\<open>binary.BigEndian.Uint16\<close> and \<open>Uint32\<close>, read from the front of a slice.\<close>

definition be_uint :: "nat \<Rightarrow> bytes \<Rightarrow> int" where
  "be_uint n bs = foldl (\<lambda>v b. v * 256 + uint b) 0 (take n bs)"

text \<open>\<open>string(b)\<close> for a byte is the UTF-8 text of the code point \<open>b\<close>.\<close>

definition rune_string :: "8 word \<Rightarrow> string" where
  "rune_string b =
     (if unat b < 128 then [char_of (unat b)]
      else [char_of (192 + unat b div 64), char_of (128 + unat b mod 64)])"

definition sprintf_02d :: "nat \<Rightarrow> string" where
  "sprintf_02d n = pad0 2 (formatUint 10 n)"

definition parseDateAndTime :: "SnmpPDU \<Rightarrow> date_error + f64" where
  "parseDateAndTime pdu = (case pdu_Value pdu of
       GBytes v \<Rightarrow>
         (case (if length v = 8 then Inr 0
                else if length v = 11 then
                  (case parse_zone (rune_string (v ! 8) @ sprintf_02d (unat (v ! 9))
                                    @ sprintf_02d (unat (v ! 10))) of
                     None \<Rightarrow> Inl DateAndTimeLocation
                   | Some z \<Rightarrow> Inr z)
                else Inl (DateAndTimeLength (length v))) of
            Inl e \<Rightarrow> Inl e
          | Inr tz \<Rightarrow>
              Inr (f64_of_int (date_unix (be_uint 2 v) (uint (v ! 2)) (uint (v ! 3))
                (uint (v ! 4)) (uint (v ! 5)) (uint (v ! 6))
                (uint (v ! 7) * 10 ^ 8) tz)))
     | _ \<Rightarrow> Inl DateAndTimeType)"

definition parseDateAndTimeWithPattern ::
  "runtime \<Rightarrow> Metric \<Rightarrow> SnmpPDU \<Rightarrow> Metrics \<Rightarrow> ((date_error + f64) \<times> Metrics) go" where
  "parseDateAndTimeWithPattern rt metric pdu metrics =
     bindG (pduValueAsString rt pdu ''DisplayString'' [] metrics) (\<lambda>(pduValue, metrics').
       Inr (case timefmtParse rt pduValue (metric_DateTimePattern metric) of
              None \<Rightarrow> Inl DatePattern
            | Some t \<Rightarrow> Inr (f64_of_int t), metrics'))"

text \<open>\<open>time.Unix(secs, nanos).Unix()\<close> carries whole seconds out of the nanoseconds.\<close>

definition parseNtpTimestamp :: "SnmpPDU \<Rightarrow> date_error + f64" where
  "parseNtpTimestamp pdu = (case pdu_Value pdu of
       GBytes data \<Rightarrow>
         if length data < 8 then Inl (NTPTimeStampLength (length data))
         else let secs = i64 (be_uint 4 data - 2208988800);
                  nanos = i64 (be_uint 4 (drop 4 data) * 10 ^ 9) div 2 ^ 32
              in Inr (f64_of_int (i64 (secs + nanos div 10 ^ 9)))
     | _ \<Rightarrow> Inl NTPTimeStampType)"


section \<open>Lemmas on numbers\<close>

lemma sint_word_of_int_64: "sint (word_of_int x :: 64 word) = i64 x"
  by (simp add: sint_sbintrunc' signed_take_bit_eq_take_bit_shift take_bit_eq_mod i64_def)

lemma bigInt64_id: "in_i64 x \<Longrightarrow> bigInt64 x = x"
  by (cases "x = - (2 ^ 63)")
    (auto simp: bigInt64_def sint_word_of_int_64 Let_def in_i64_def i64_def)

lemma bigUint64_uint [simp]: "bigUint64 (uint w) = w"
  by (simp add: bigUint64_def)

lemma getPduValue_counter64:
  assumes "bigint_ok rt" and "pdu_Type pdu = Counter64" and "pdu_Value pdu = GUint64 w"
  shows "getPduValue rt pdu = Inr (f64_of_int
    (if wrapCounters rt then uint w mod float64Mantissa else uint w))"
  using assms by (simp add: getPduValue_def bigint_ok_def)

text \<open>A wrapped counter is an integer of 53 bits, so no rounding takes place.\<close>

lemma getPduValue_wrapped_exact:
  assumes "bigint_ok rt" and "wrapCounters rt"
    and "pdu_Type pdu = Counter64" and "pdu_Value pdu = GUint64 w"
  obtains x where "getPduValue rt pdu = Inr x" "f64_is_int x (uint w mod 2 ^ 53)"
proof -
  have "\<bar>uint w mod 2 ^ 53\<bar> < 2 ^ 53" by simp
  from f64_of_int_exact [OF this] getPduValue_counter64 [OF assms(1,3,4)] assms(2) that
  show thesis by (simp add: float64Mantissa_def)
qed

definition integer_type :: "asn1ber \<Rightarrow> bool" where
  "integer_type t \<longleftrightarrow> t \<noteq> Counter64 \<and> t \<noteq> OpaqueFloat \<and> t \<noteq> OpaqueDouble"

lemma getPduValue_integer:
  "integer_type (pdu_Type pdu) \<Longrightarrow>
   getPduValue rt pdu = Inr (f64_of_int (bigInt64 (ToBigInt rt (pdu_Value pdu))))"
  by (auto simp: integer_type_def getPduValue_def split: asn1ber.splits)

text \<open>The only panics are the type assertions on opaque floats.\<close>

definition pdu_typed :: "SnmpPDU \<Rightarrow> bool" where
  "pdu_typed pdu \<longleftrightarrow>
     (pdu_Type pdu = OpaqueFloat \<longrightarrow> (\<exists>f. pdu_Value pdu = GFloat32 f)) \<and>
     (pdu_Type pdu = OpaqueDouble \<longrightarrow> (\<exists>f. pdu_Value pdu = GFloat64 f))"

lemma getPduValue_total: "pdu_typed pdu \<Longrightarrow> \<exists>x. getPduValue rt pdu = Inr x"
  by (auto simp: getPduValue_def pdu_typed_def split: asn1ber.splits)

section \<open>Lemmas on text\<close>

lemma uint_byte [simp]: "uint (b :: 8 word) < 256"
  using unsigned_less [of b, where 'a = int] by simp

lemma map_char_of_bytes: "map char_of (map byte_of (map uint (v :: bytes))) = string_of_bytes v"
  by (simp add: string_of_bytes_def char_of_byte_def byte_of_def)

lemma bytesAsString_DisplayString:
  "bytesAsString v ''DisplayString'' = Inr (toValidUTF8 (string_of_bytes v))"
  using index_octets_counted [of "int (length v)" "map uint v" "[]"]
  by (simp add: bytesAsString_def Let_def indexOidsAsString_plain index_switch_def
      map_char_of_bytes del: map_map)

lemma pduValueAsString_DisplayString:
  "pdu_Value pdu = GBytes v \<Longrightarrow>
   pduValueAsString rt pdu ''DisplayString'' h m = Inr (toValidUTF8 (string_of_bytes v), m)"
  by (simp add: pduValueAsString_def bytesAsString_DisplayString)

text \<open>Bytes of a type \<open>indexOidsAsString\<close> knows are printed without a panic.\<close>

lemma wire_oid_bytes: "wire_oid (map uint (v :: bytes))"
proof -
  have "uint b < 2 ^ 32" for b :: "8 word" by (rule order.strict_trans [OF uint_byte]) simp
  then show ?thesis by (simp add: wire_oid_def list_all_iff)
qed

definition text_types :: "string list" where
  "text_types = [] # ''Bits'' # known_index_types"

lemma bytesAsString_total:
  assumes "ty \<in> set text_types" and "length v < 2 ^ 32"
  shows "\<exists>s. bytesAsString v ty = Inr s"
proof -
  define ty' where "ty' = (if ty = [] \<or> ty = ''Bits'' then ''OctetString'' else ty)"
  define parts where "parts = (if ty' = ''OctetString'' \<or> ty' = ''DisplayString''
      then int (length v) # map uint v else map uint v)"
  have "wire_oid parts"
    using wire_oid_bytes [of v] assms(2)
    by (simp add: parts_def wire_oid_def of_nat_less_numeral_power_cancel_iff)
  moreover have "ty' \<in> set known_index_types"
    using assms(1) unfolding ty'_def text_types_def by (auto simp: known_index_types_def)
  ultimately obtain str u r where "indexOidsAsString parts ty' 0 False [] = Inr (str, u, r)"
    using indexOidsAsString_total [of parts 0 ty' False "[]"] by auto
  then show ?thesis
    unfolding bytesAsString_def Let_def ty'_def [symmetric] parts_def [symmetric] by simp
qed

lemma pduValueAsString_total:
  assumes "ty \<in> set text_types" and "pdu_Type pdu = ObjectIdentifier \<longrightarrow> pdu_Value pdu \<noteq> GString []"
    and "\<And>v. pdu_Value pdu = GBytes v \<Longrightarrow> length v < 2 ^ 32"
  shows "\<exists>s m'. pduValueAsString rt pdu ty h m = Inr (s, m')"
proof (cases "pdu_Value pdu")
  case (GBytes v)
  with bytesAsString_total [OF assms(1,3)] obtain s where "bytesAsString v ty = Inr s" by blast
  with GBytes show ?thesis by (simp add: pduValueAsString_def split: option.split)
qed (use assms(2) in \<open>auto simp: pduValueAsString_def\<close>)

lemma valid_utf8_bytesAsString: "bytesAsString v ty = Inr s \<Longrightarrow> valid_utf8 s"
  by (auto simp: bytesAsString_def Let_def)

text \<open>
  Everything but an object identifier and an unexpected type is made valid UTF-8 by the code;
  an object identifier is trusted to be text.
\<close>

lemma valid_utf8_formatUint [simp]: "valid_utf8 (formatUint 10 n)"
  using formatUint_10_digits by (intro valid_utf8_ascii) (auto simp: list_all_iff is_ascii_digit)

definition pdu_clean :: "SnmpPDU \<Rightarrow> bool" where
  "pdu_clean pdu \<longleftrightarrow> (\<forall>t. pdu_Value pdu \<noteq> GOther t) \<and>
     (pdu_Type pdu = ObjectIdentifier \<longrightarrow> (\<forall>v. pdu_Value pdu = GString v \<longrightarrow> valid_utf8 (tl v)))"

definition formats_ok :: "runtime \<Rightarrow> bool" where
  "formats_ok rt \<longleftrightarrow> (\<forall>x. valid_utf8 (formatFloat32 rt x) \<and> valid_utf8 (formatFloat64 rt x))"

lemma pduValueAsString_valid:
  assumes "pduValueAsString rt pdu ty h m = Inr (s, m')" and "pdu_clean pdu" and "formats_ok rt"
  shows "valid_utf8 s"
  using assms
  by (cases "pdu_Value pdu")
    (auto simp: pduValueAsString_def pdu_clean_def formats_ok_def
      split: option.splits if_splits dest: valid_utf8_bytesAsString)

section \<open>Lemmas on dates\<close>

lemma be_uint_bounds: "0 \<le> be_uint n bs \<and> be_uint n bs < 256 ^ n"
proof -
  have step: "0 \<le> foldl (\<lambda>v b. v * 256 + uint b) a cs \<and>
      foldl (\<lambda>v b. v * 256 + uint b) a cs < (a + 1) * 256 ^ length cs"
    if "0 \<le> a" for a :: int and cs :: bytes
    using that
  proof (induction cs arbitrary: a)
    case (Cons b cs)
    have b: "uint b \<le> 255" using uint_byte [of b] by linarith
    from Cons.IH [of "a * 256 + uint b"] Cons.prems
    have r: "0 \<le> foldl (\<lambda>v b. v * 256 + uint b) (a * 256 + uint b) cs"
      "foldl (\<lambda>v b. v * 256 + uint b) (a * 256 + uint b) cs
        < (a * 256 + uint b + 1) * 256 ^ length cs" by simp_all
    have "(a * 256 + uint b + 1) * 256 ^ length cs \<le> (a * 256 + 256) * 256 ^ length cs"
      using b by (intro mult_right_mono) simp_all
    also have "\<dots> = (a + 1) * 256 ^ length (b # cs)" by (simp add: algebra_simps)
    finally have "(a * 256 + uint b + 1) * 256 ^ length cs \<le> (a + 1) * 256 ^ length (b # cs)" .
    from r(1) less_le_trans [OF r(2) this] show ?case by simp
  qed simp
  from step [of 0 "take n bs"] have "0 \<le> be_uint n bs" "be_uint n bs < 256 ^ length (take n bs)"
    by (simp_all add: be_uint_def)
  moreover have "(256 :: int) ^ length (take n bs) \<le> 256 ^ n"
    by (rule power_increasing) simp_all
  ultimately show ?thesis by linarith
qed

lemma parseNtpTimestamp_eq:
  assumes "pdu_Value pdu = GBytes data" and "8 \<le> length data"
  shows "parseNtpTimestamp pdu = Inr (f64_of_int (be_uint 4 data - 2208988800))"
proof -
  define f where "f = be_uint 4 (drop 4 data)"
  define q where "q = be_uint 4 data"
  have f: "0 \<le> f" "f < 4294967296" and q: "0 \<le> q" "q < 4294967296"
    using be_uint_bounds [of 4 "drop 4 data"] be_uint_bounds [of 4 data] by (simp_all add: f_def q_def)
  have "i64 (f * 10 ^ 9) = f * 10 ^ 9" using f by (intro i64_id) (simp add: in_i64_def)
  moreover have "f * 10 ^ 9 div 2 ^ 32 div 10 ^ 9 = f * 10 ^ 9 div (10 ^ 9 * 2 ^ 32)"
    by (simp add: zdiv_zmult2_eq [symmetric] mult.commute)
  moreover have "f * 10 ^ 9 div (10 ^ 9 * 2 ^ 32) = f div 2 ^ 32"
    by (metis div_mult_mult1 mult.commute zero_neq_numeral power_not_zero)
  moreover have "f div 2 ^ 32 = 0" using f by simp
  moreover have "i64 (q - 2208988800) = q - 2208988800" using q by (intro i64_id) (simp add: in_i64_def)
  ultimately show ?thesis using assms q
    by (simp add: parseNtpTimestamp_def Let_def flip: f_def q_def)
qed


text \<open>The zone text the code builds from three bytes is read back as the offset they mean.\<close>

definition zone_of_bytes :: "8 word \<Rightarrow> 8 word \<Rightarrow> 8 word \<Rightarrow> int option" where
  "zone_of_bytes s h m =
     (if (s = 43 \<or> s = 45) \<and> unat h \<le> 24 \<and> unat m \<le> 60
      then Some ((if s = 45 then - 1 else 1) * (3600 * uint h + 60 * uint m)) else None)"

lemma digit_char_0: "digit_char 0 = CHR ''0''"
  by (simp add: digit_char_def char_of_iff)

lemma formatUint_step:
  "10 \<le> n \<Longrightarrow> formatUint 10 n = formatUint 10 (n div 10) @ [digit_char (n mod 10)]"
  by (subst formatUint.simps) simp

lemma formatUint_digit: "n < 10 \<Longrightarrow> formatUint 10 n = [digit_char n]"
  by (subst formatUint.simps) simp

lemma formatUint_two:
  assumes "n < 100"
  shows "sprintf_02d n = [digit_char (n div 10), digit_char (n mod 10)]"
proof (cases "n < 10")
  case True
  then show ?thesis by (simp add: sprintf_02d_def pad0_def formatUint_digit digit_char_0)
next
  case False
  then have "formatUint 10 n = formatUint 10 (n div 10) @ [digit_char (n mod 10)]"
    by (simp add: formatUint_step)
  moreover have "formatUint 10 (n div 10) = [digit_char (n div 10)]"
    using assms by (intro formatUint_digit) simp
  ultimately show ?thesis by (simp add: sprintf_02d_def pad0_def)
qed

lemma formatUint_length_ge:
  assumes "100 \<le> n"
  shows "3 \<le> length (sprintf_02d n)"
proof -
  have "formatUint 10 n = formatUint 10 (n div 10) @ [digit_char (n mod 10)]"
    "formatUint 10 (n div 10) = formatUint 10 (n div 10 div 10) @ [digit_char (n div 10 mod 10)]"
    using assms by (auto intro!: formatUint_step)
  moreover have "0 < length (formatUint 10 (n div 10 div 10))"
    using formatUint_nonempty by blast
  ultimately show ?thesis by (simp add: sprintf_02d_def pad0_def Suc_le_eq)
qed

lemma length_sprintf_02d: "2 \<le> length (sprintf_02d n)"
  using formatUint_two [of n] formatUint_length_ge [of n] by (cases "n < 100") simp_all

lemma rune_string_sign:
  "length (rune_string s) = 1 \<and> rune_string s ! 0 \<in> set ''+-'' \<longleftrightarrow> s = 43 \<or> s = 45"
proof -
  have "unat s < 256" using unsigned_less [of s, where 'a = nat] by simp
  then have "char_of (unat s) = (CHR ''+'') \<longleftrightarrow> s = 43" "char_of (unat s) = (CHR ''-'') \<longleftrightarrow> s = 45"
    by (simp_all add: char_of_iff word_unat_eq_iff)
  then show ?thesis by (auto simp: rune_string_def)
qed

lemma parse_zone_bytes:
  "parse_zone (rune_string s @ sprintf_02d (unat h) @ sprintf_02d (unat m)) = zone_of_bytes s h m"
proof (cases "(s = 43 \<or> s = 45) \<and> unat h < 100 \<and> unat m < 100")
  case True
  then have h: "sprintf_02d (unat h) = [digit_char (unat h div 10), digit_char (unat h mod 10)]"
    and m: "sprintf_02d (unat m) = [digit_char (unat m div 10), digit_char (unat m mod 10)]"
    by (simp_all add: formatUint_two)
  have d: "two_digits (digit_char (n div 10)) (digit_char (n mod 10)) = Some n" if "n < 100" for n
    using that by (simp add: two_digits_def)
  have s: "rune_string 43 = ''+''" "rune_string 45 = ''-''"
    by (simp_all add: rune_string_def char_of_iff)
  from True show ?thesis
    by (auto simp: parse_zone_def h m d s zone_of_bytes_def)
next
  case False
  have none: "zone_of_bytes s h m = None" using False by (auto simp: zone_of_bytes_def)
  let ?z = "rune_string s @ sprintf_02d (unat h) @ sprintf_02d (unat m)"
  have l: "2 \<le> length (sprintf_02d (unat h))" "2 \<le> length (sprintf_02d (unat m))"
    "1 \<le> length (rune_string s)"
    by (simp_all add: length_sprintf_02d rune_string_def)
  show ?thesis
  proof (cases "length ?z = 5")
    case True
    with l have one: "length (rune_string s) = 1" "length (sprintf_02d (unat h)) = 2"
      "length (sprintf_02d (unat m)) = 2" by auto
    then have "unat h < 100" "unat m < 100"
      using formatUint_length_ge [of "unat h"] formatUint_length_ge [of "unat m"] by linarith+
    with False rune_string_sign [of s] one have "rune_string s ! 0 \<notin> set ''+-''" by auto
    moreover have "?z ! 0 = rune_string s ! 0" using one by (simp add: nth_append)
    ultimately show ?thesis by (simp add: parse_zone_def none)
  next
    case False
    then show ?thesis by (simp add: parse_zone_def none)
  qed
qed

text \<open>The moment a DateAndTime of 8 or 11 bytes denotes.\<close>

definition date_of_bytes :: "bytes \<Rightarrow> int \<Rightarrow> int" where
  "date_of_bytes v zone = 86400 * unix_days (256 * uint (v ! 0) + uint (v ! 1)) (uint (v ! 2)) (uint (v ! 3))
     + 3600 * uint (v ! 4) + 60 * uint (v ! 5) + uint (v ! 6) + uint (v ! 7) div 10 - zone"

lemma date_unix_bytes:
  assumes "8 \<le> length v"
  shows "date_unix (be_uint 2 v) (uint (v ! 2)) (uint (v ! 3)) (uint (v ! 4)) (uint (v ! 5))
    (uint (v ! 6)) (uint (v ! 7) * 10 ^ 8) zone = date_of_bytes v zone"
proof -
  obtain a b w where v: "v = a # b # w" using assms by (metis Suc_le_length_iff numeral_eq_Suc pred_numeral_simps(2,3) add_One pred_numeral_simps)
  have "be_uint 2 v = 256 * uint (v ! 0) + uint (v ! 1)"
    by (simp add: v be_uint_def numeral_2_eq_2)
  moreover have "x * 10 ^ 8 div 10 ^ 9 = x div 10" for x :: int
  proof -
    have "x * 10 ^ 8 div 10 ^ 9 = (10 ^ 8 * x) div (10 ^ 8 * 10)" by simp
    also have "\<dots> = x div 10" by (rule div_mult_mult1) simp
    finally show ?thesis .
  qed
  ultimately show ?thesis by (simp add: date_unix_def date_of_bytes_def)
qed

lemma parseDateAndTime_8:
  "pdu_Value pdu = GBytes v \<Longrightarrow> length v = 8 \<Longrightarrow>
   parseDateAndTime pdu = Inr (f64_of_int (date_of_bytes v 0))"
  using date_unix_bytes [of v 0] by (simp add: parseDateAndTime_def)

lemma parseDateAndTime_11:
  "pdu_Value pdu = GBytes v \<Longrightarrow> length v = 11 \<Longrightarrow>
   parseDateAndTime pdu =
     (case zone_of_bytes (v ! 8) (v ! 9) (v ! 10) of
        None \<Rightarrow> Inl DateAndTimeLocation
      | Some z \<Rightarrow> Inr (f64_of_int (date_of_bytes v z)))"
  using date_unix_bytes [of v]
  by (simp add: parseDateAndTime_def parse_zone_bytes split: option.split)

text \<open>An NTP timestamp is its seconds since 1900 shifted to the Unix epoch, whatever its fraction.\<close>

lemma ntp_timestamp_value:
  assumes "pdu_Value pdu = GBytes data" and "8 \<le> length data"
  shows "parseNtpTimestamp pdu = Inr (f64_of_int (be_uint 4 data - 2208988800))"
  by (rule parseNtpTimestamp_eq [OF assms])

end
