(* ===== verification/Scraper.thy ===== *)
theory Scraper
  imports Pdu
begin

text \<open>
  \<open>scraper/\<close>: the interface the collector talks to (\<open>SNMPScraper\<close>), the mock of the tests and
  the wrapper around gosnmp. A scraper is a record of operations on a client state; the calls
  of the gosnmp library are parameters (\<open>gosnmp_lib\<close>). Shown: how targets are parsed, which
  library call serves which request, and the laws of the call log that ScrapeTarget is proved
  against.
\<close>

section \<open>Sessions\<close>

text \<open>
  The fields of \<open>gosnmp.GoSNMP\<close> that the repository sets or reads. A protocol that is not set is
  the zero value of the library's enumeration, which has no name there: \<open>None\<close>. \<open>AppOpts_c\<close>
  says that \<open>AppOpts\<close> is the map \<open>{"c": true}\<close>; it is nil otherwise.
\<close>

datatype SnmpVersion = Version1 | Version2c | Version3

datatype AuthProto = MD5 | SHA | SHA224 | SHA256 | SHA384 | SHA512
datatype PrivProto = DES | AES | AES192 | AES192C | AES256 | AES256C
datatype MsgFlags = NoAuthNoPriv | AuthNoPriv | AuthPriv

record UsmSecurityParameters =
  usm_UserName :: string
  usm_AuthenticationProtocol :: "AuthProto option"
  usm_AuthenticationPassphrase :: string
  usm_PrivacyProtocol :: "PrivProto option"
  usm_PrivacyPassphrase :: string

record GoSNMP =
  Transport :: string
  Target :: string
  Port :: "16 word"
  LocalAddr :: string
  gs_Version :: SnmpVersion
  gs_Community :: string
  gs_ContextName :: string
  ContextEngineID :: string
  UserSecurityModel :: bool
  gs_MsgFlags :: MsgFlags
  gs_SecurityParameters :: "UsmSecurityParameters option"
  gs_Retries :: int
  gs_Timeout :: int
  gs_MaxRepetitions :: "32 word"
  gs_UseUnconnectedUDPSocket :: bool
  AppOpts_c :: bool

text \<open>The zero value, from which the wrapper's composite literal starts.\<close>

definition zero_GoSNMP :: GoSNMP where
  "zero_GoSNMP = \<lparr>Transport = [], Target = [], Port = 0, LocalAddr = [], gs_Version = Version1,
     gs_Community = [], gs_ContextName = [], ContextEngineID = [], UserSecurityModel = False,
     gs_MsgFlags = NoAuthNoPriv, gs_SecurityParameters = None, gs_Retries = 0, gs_Timeout = 0,
     gs_MaxRepetitions = 0, gs_UseUnconnectedUDPSocket = False, AppOpts_c = False\<rparr>"

section \<open>The interface\<close>

datatype packet_error = NoError | NoSuchName | OtherError nat

record SnmpPacket =
  packet_Variables :: "SnmpPDU list"
  packet_Error :: packet_error

text \<open>Errors of the library: a cancelled context, or anything else.\<close>

datatype lib_error = Canceled | LibError string

text \<open>Errors of a scraper name the target; those of \<open>ScrapeTarget\<close> itself the packet's status.\<close>

datatype scrape_error =
    ScrapeCancelled string
  | ScrapeFailed string lib_error
  | ErrorStatus string packet_error

record 'c SNMPScraper =
  Get :: "string list \<Rightarrow> 'c \<Rightarrow> (scrape_error + SnmpPacket) \<times> 'c"
  WalkAll :: "string \<Rightarrow> 'c \<Rightarrow> (scrape_error + SnmpPDU list) \<times> 'c"
  Connect :: "'c \<Rightarrow> scrape_error option \<times> 'c"
  Close :: "'c \<Rightarrow> scrape_error option \<times> 'c"
  SetOptions :: "(GoSNMP \<Rightarrow> GoSNMP go) list \<Rightarrow> 'c \<Rightarrow> 'c go"

section \<open>The mock\<close>

record mockSNMPScraper =
  GetResponses :: "string \<Rightarrow> SnmpPDU option"
  WalkResponses :: "string \<Rightarrow> SnmpPDU list option"
  ConnectError :: "scrape_error option"
  CloseError :: "scrape_error option"
  callGet :: "string list"
  callWalk :: "string list"

definition NewMockSNMPScraper ::
  "(string \<Rightarrow> SnmpPDU option) \<Rightarrow> (string \<Rightarrow> SnmpPDU list option) \<Rightarrow> mockSNMPScraper" where
  "NewMockSNMPScraper g w = \<lparr>GetResponses = g, WalkResponses = w, ConnectError = None,
     CloseError = None, callGet = [], callWalk = []\<rparr>"

definition mock_response :: "mockSNMPScraper \<Rightarrow> string \<Rightarrow> SnmpPDU" where
  "mock_response m oid = (case GetResponses m oid of
       Some response \<Rightarrow> response
     | None \<Rightarrow> \<lparr>pdu_Name = oid, pdu_Type = NoSuchObject, pdu_Value = GNil\<rparr>)"

definition mock_Get ::
  "string list \<Rightarrow> mockSNMPScraper \<Rightarrow> (scrape_error + SnmpPacket) \<times> mockSNMPScraper" where
  "mock_Get oids m =
     (let (pdus, m') = fold (\<lambda>oid (pdus, m). (pdus @ [mock_response m oid],
            m\<lparr>callGet := callGet m @ [oid]\<rparr>)) oids ([], m)
      in (Inr \<lparr>packet_Variables = pdus, packet_Error = NoError\<rparr>, m'))"

definition mock_WalkAll ::
  "string \<Rightarrow> mockSNMPScraper \<Rightarrow> (scrape_error + SnmpPDU list) \<times> mockSNMPScraper" where
  "mock_WalkAll baseOID m =
     (let m' = m\<lparr>callWalk := callWalk m @ [baseOID]\<rparr>
      in (Inr (case WalkResponses m' baseOID of Some pdus \<Rightarrow> pdus | None \<Rightarrow> []), m'))"

definition mock_scraper :: "mockSNMPScraper SNMPScraper" where
  "mock_scraper = \<lparr>Get = mock_Get, WalkAll = mock_WalkAll,
     Connect = (\<lambda>m. (ConnectError m, m)), Close = (\<lambda>m. (CloseError m, m)),
     SetOptions = (\<lambda>_ m. Inr m)\<rparr>"

section \<open>The gosnmp wrapper\<close>

text \<open>\<open>net.SplitHostPort\<close>: the port is after the last colon; brackets enclose an IPv6 host.\<close>

definition last_colon :: "string \<Rightarrow> (string \<times> string) option" where
  "last_colon s =
     (if CHR '':'' \<in> set s
      then Some (rev (tl (dropWhile (\<lambda>c. c \<noteq> CHR '':'') (rev s))),
                 rev (takeWhile (\<lambda>c. c \<noteq> CHR '':'') (rev s)))
      else None)"

definition SplitHostPort :: "string \<Rightarrow> (string \<times> string) option" where
  "SplitHostPort hostport = (case last_colon hostport of
       None \<Rightarrow> None
     | Some (before, port) \<Rightarrow>
         if hostport \<noteq> [] \<and> hd hostport = CHR ''['' then
           (if CHR '']'' \<notin> set hostport then None
            else let host = takeWhile (\<lambda>c. c \<noteq> CHR '']'') hostport in
              if host @ '']'' \<noteq> before then None
              else if CHR ''['' \<in> set (tl hostport) \<or> CHR '']'' \<in> set port then None
              else Some (tl host, port))
         else if CHR '':'' \<in> set before then None
         else if CHR ''['' \<in> set hostport \<or> CHR '']'' \<in> set hostport then None
         else Some (before, port))"

text \<open>\<open>strings.SplitN(s, sep, 2)\<close> when it gives two parts.\<close>

fun cut_on :: "string \<Rightarrow> string \<Rightarrow> (string \<times> string) option" where
  "cut_on sep s =
     (if hasPrefix s sep then Some ([], drop (length sep) s)
      else case s of
          [] \<Rightarrow> None
        | c # cs \<Rightarrow> map_option (\<lambda>(a, b). (c # a, b)) (cut_on sep cs))"

datatype target_error = PortSyntax string num_error | PortRange string

text \<open>What \<open>NewGoSNMP\<close> takes a target apart into: transport, host and port.\<close>

definition parse_target :: "string \<Rightarrow> target_error + string \<times> string \<times> 16 word" where
  "parse_target target0 =
     (case (case cut_on ''://'' target0 of None \<Rightarrow> (''udp'', target0) | Some p \<Rightarrow> p) of
        (transport, target) \<Rightarrow>
          (case SplitHostPort target of
             Some (host, port) \<Rightarrow>
               (case atoi port of
                  (p, Some e) \<Rightarrow> Inl (PortSyntax host e)
                | (p, None) \<Rightarrow>
                    if p < 0 \<or> p > 65535 then Inl (PortRange host)
                    else Inr (transport, host, word_of_int p))
           | None \<Rightarrow>
               (case SplitHostPort (target @ '':0'') of
                  Some (host, _) \<Rightarrow> Inr (transport, host, 161)
                | None \<Rightarrow> Inr (transport, target, 161))))"

definition NewGoSNMP :: "string \<Rightarrow> string \<Rightarrow> target_error + GoSNMP" where
  "NewGoSNMP target srcAddress = (case parse_target target of
       Inl e \<Rightarrow> Inl e
     | Inr (transport, host, port) \<Rightarrow>
         Inr (zero_GoSNMP\<lparr>Transport := transport, Target := host, Port := port,
           LocalAddr := srcAddress\<rparr>))"

text \<open>The library behind the wrapper; \<open>'n\<close> is the state of the network and the socket.\<close>

record 'n gosnmp_lib =
  lib_Get :: "GoSNMP \<Rightarrow> string list \<Rightarrow> 'n \<Rightarrow> (lib_error + SnmpPacket) \<times> 'n"
  lib_WalkAll :: "GoSNMP \<Rightarrow> string \<Rightarrow> 'n \<Rightarrow> (lib_error + SnmpPDU list) \<times> 'n"
  lib_BulkWalkAll :: "GoSNMP \<Rightarrow> string \<Rightarrow> 'n \<Rightarrow> (lib_error + SnmpPDU list) \<times> 'n"
  lib_Connect :: "GoSNMP \<Rightarrow> 'n \<Rightarrow> lib_error option \<times> 'n"
  lib_Close :: "GoSNMP \<Rightarrow> 'n \<Rightarrow> lib_error option \<times> 'n"

definition wrap_error :: "GoSNMP \<Rightarrow> lib_error \<Rightarrow> scrape_error" where
  "wrap_error g e = (if e = Canceled then ScrapeCancelled (Target g) else ScrapeFailed (Target g) e)"

definition wrap_result :: "GoSNMP \<Rightarrow> (lib_error + 'a) \<Rightarrow> scrape_error + 'a" where
  "wrap_result g r = (case r of Inl e \<Rightarrow> Inl (wrap_error g e) | Inr a \<Rightarrow> Inr a)"

type_synonym 'n wrapper = "GoSNMP \<times> 'n"

definition wrapper_Get ::
  "'n gosnmp_lib \<Rightarrow> string list \<Rightarrow> 'n wrapper \<Rightarrow> (scrape_error + SnmpPacket) \<times> 'n wrapper" where
  "wrapper_Get lib oids w = (case w of (g, n) \<Rightarrow>
     (case lib_Get lib g oids n of (r, n') \<Rightarrow> (wrap_result g r, (g, n'))))"

definition wrapper_WalkAll ::
  "'n gosnmp_lib \<Rightarrow> string \<Rightarrow> 'n wrapper \<Rightarrow> (scrape_error + SnmpPDU list) \<times> 'n wrapper" where
  "wrapper_WalkAll lib oid w = (case w of (g, n) \<Rightarrow>
     (case (if gs_Version g = Version1 then lib_WalkAll lib g oid n else lib_BulkWalkAll lib g oid n) of
        (r, n') \<Rightarrow> (wrap_result g r, (g, n'))))"

definition wrapper_Connect :: "'n gosnmp_lib \<Rightarrow> 'n wrapper \<Rightarrow> scrape_error option \<times> 'n wrapper" where
  "wrapper_Connect lib w = (case w of (g, n) \<Rightarrow>
     (case lib_Connect lib g n of (r, n') \<Rightarrow> (map_option (wrap_error g) r, (g, n'))))"

text \<open>\<open>Close\<close> hands the library's error on as it is.\<close>

definition wrapper_Close :: "'n gosnmp_lib \<Rightarrow> 'n wrapper \<Rightarrow> scrape_error option \<times> 'n wrapper" where
  "wrapper_Close lib w = (case w of (g, n) \<Rightarrow>
     (case lib_Close lib g n of (r, n') \<Rightarrow> (map_option (ScrapeFailed []) r, (g, n'))))"

definition wrapper_SetOptions :: "(GoSNMP \<Rightarrow> GoSNMP go) list \<Rightarrow> 'n wrapper \<Rightarrow> 'n wrapper go" where
  "wrapper_SetOptions fns w = (case w of (g, n) \<Rightarrow>
     bindG (foldG (\<lambda>fn. fn) fns g) (\<lambda>g'. Inr (g', n)))"

definition gosnmp_scraper :: "'n gosnmp_lib \<Rightarrow> 'n wrapper SNMPScraper" where
  "gosnmp_scraper lib = \<lparr>Get = wrapper_Get lib, WalkAll = wrapper_WalkAll lib,
     Connect = wrapper_Connect lib, Close = wrapper_Close lib, SetOptions = wrapper_SetOptions\<rparr>"


section \<open>Targets\<close>

lemma last_colon_port:
  assumes "CHR '':'' \<notin> set port"
  shows "last_colon (host @ '':'' @ port) = Some (host, port)"
proof -
  have "takeWhile (\<lambda>c. c \<noteq> CHR '':'') (rev port @ CHR '':'' # rev host) = rev port"
    "dropWhile (\<lambda>c. c \<noteq> CHR '':'') (rev port @ CHR '':'' # rev host) = CHR '':'' # rev host"
    using assms by (simp_all add: takeWhile_append dropWhile_append)
  then show ?thesis by (simp add: last_colon_def)
qed

lemma last_colon_None: "CHR '':'' \<notin> set s \<Longrightarrow> last_colon s = None"
  by (simp add: last_colon_def)

text \<open>Host names and IPv4 addresses: no colon and no bracket.\<close>

definition plain_host :: "string \<Rightarrow> bool" where
  "plain_host s \<longleftrightarrow> CHR '':'' \<notin> set s \<and> CHR ''['' \<notin> set s \<and> CHR '']'' \<notin> set s"

lemma digits_plain: "list_all is_digit s \<Longrightarrow> plain_host s"
  by (auto simp: plain_host_def list_all_iff is_digit_def)

lemma SplitHostPort_plain:
  assumes "plain_host host" "plain_host port"
  shows "SplitHostPort (host @ '':'' @ port) = Some (host, port)"
proof -
  have "last_colon (host @ CHR '':'' # port) = Some (host, port)"
    using last_colon_port [of port host] assms(2) by (simp add: plain_host_def)
  moreover have "hd (host @ CHR '':'' # port) \<noteq> CHR ''[''"
    using assms(1) by (cases host) (auto simp: plain_host_def)
  ultimately show ?thesis using assms by (auto simp: SplitHostPort_def plain_host_def)
qed

text \<open>An IPv6 address in brackets, with colons inside.\<close>

lemma SplitHostPort_brackets:
  assumes "CHR ''['' \<notin> set host" "CHR '']'' \<notin> set host" "plain_host port"
  shows "SplitHostPort (''['' @ host @ '']:'' @ port) = Some (host, port)"
proof -
  have "last_colon (CHR ''['' # host @ CHR '']'' # CHR '':'' # port) =
      Some (CHR ''['' # host @ '']'', port)"
    using last_colon_port [of port "CHR ''['' # host @ '']''"] assms(3) by (simp add: plain_host_def)
  moreover have "takeWhile (\<lambda>c. c \<noteq> CHR '']'') (host @ CHR '']'' # CHR '':'' # port) = host"
    using assms(2) by (simp add: takeWhile_append)
  ultimately show ?thesis using assms by (auto simp: SplitHostPort_def plain_host_def)
qed

lemma SplitHostPort_missing: "plain_host host \<Longrightarrow> SplitHostPort host = None"
  by (simp add: SplitHostPort_def plain_host_def last_colon_None)

lemma SplitHostPort_brackets_missing:
  assumes "CHR ''['' \<notin> set host" "CHR '']'' \<notin> set host"
  shows "SplitHostPort (''['' @ host @ '']'') = None"
proof (cases "CHR '':'' \<in> set host")
  case True
  then obtain before after where h: "host = before @ '':'' @ after" "CHR '':'' \<notin> set after"
    using split_list_last [of "CHR '':''" host] by auto
  then have "last_colon (''['' @ host @ '']'') = Some (''['' @ before, after @ '']'')"
    using last_colon_port [of "after @ '']''" "''['' @ before"] by simp
  moreover have "takeWhile (\<lambda>c. c \<noteq> CHR '']'') (host @ '']'') = host"
    using assms(2) by (simp add: takeWhile_append)
  moreover have "length before \<noteq> length (host @ '']'')" using h by simp
  ultimately show ?thesis by (auto simp: SplitHostPort_def)
next
  case False
  then show ?thesis by (simp add: SplitHostPort_def last_colon_None)
qed


declare cut_on.simps [simp del]

lemma cut_on_None: "CHR ''/'' \<notin> set s \<Longrightarrow> cut_on ''://'' s = None"
proof (induction s)
  case (Cons c s)
  then show ?case by (subst cut_on.simps) (cases s; auto simp: hasPrefix_def)
qed (simp add: cut_on.simps hasPrefix_def)

lemma cut_on_first:
  "CHR '':'' \<notin> set t \<Longrightarrow> cut_on ''://'' (t @ CHR '':'' # CHR ''/'' # CHR ''/'' # r) = Some (t, r)"
proof (induction t)
  case (Cons c t)
  then show ?case by (subst cut_on.simps) (auto simp: hasPrefix_def)
qed (simp add: cut_on.simps hasPrefix_def)

text \<open>The targets the documentation describes: an optional transport, a host or a bracketed IPv6
  address, and an optional port.\<close>

datatype address = Host string | IPv6 string

fun address_text :: "address \<Rightarrow> string" where
  "address_text (Host h) = h"
| "address_text (IPv6 h) = ''['' @ h @ '']''"

fun address_host :: "address \<Rightarrow> string" where
  "address_host (Host h) = h"
| "address_host (IPv6 h) = h"

fun address_ok :: "address \<Rightarrow> bool" where
  "address_ok (Host h) \<longleftrightarrow> plain_host h \<and> CHR ''/'' \<notin> set h"
| "address_ok (IPv6 h) \<longleftrightarrow> CHR ''['' \<notin> set h \<and> CHR '']'' \<notin> set h \<and> CHR ''/'' \<notin> set h"

definition target_text :: "string option \<Rightarrow> address \<Rightarrow> nat option \<Rightarrow> string" where
  "target_text transport a port =
     (case transport of None \<Rightarrow> [] | Some t \<Rightarrow> t @ ''://'') @ address_text a @
     (case port of None \<Rightarrow> [] | Some p \<Rightarrow> '':'' @ itoa (int p))"

lemma plain_itoa_nat: "plain_host (itoa (int p)) \<and> CHR ''/'' \<notin> set (itoa (int p))"
proof -
  have "is_digit c" if "c \<in> set (itoa (int p))" for c
    using that formatUint_10_digits by (simp add: itoa_def)
  then have "c \<notin> set (itoa (int p))" if "\<not> is_digit c" for c
    using that by blast
  then show ?thesis by (simp add: plain_host_def is_digit_def)
qed

lemma SplitHostPort_address:
  assumes "address_ok a" "plain_host port"
  shows "SplitHostPort (address_text a @ '':'' @ port) = Some (address_host a, port)"
  using assms SplitHostPort_plain SplitHostPort_brackets by (cases a) auto

lemma SplitHostPort_address_missing: "address_ok a \<Longrightarrow> SplitHostPort (address_text a) = None"
  using SplitHostPort_missing SplitHostPort_brackets_missing by (cases a) auto

lemma parse_target_text:
  assumes "address_ok a" and "\<And>t. transport = Some t \<Longrightarrow> CHR '':'' \<notin> set t"
    and "\<And>p. port = Some p \<Longrightarrow> p \<le> 65535"
  shows "parse_target (target_text transport a port) =
    Inr (case transport of None \<Rightarrow> ''udp'' | Some t \<Rightarrow> t, address_host a,
         case port of None \<Rightarrow> 161 | Some p \<Rightarrow> word_of_nat p)"
proof -
  define rest where "rest = address_text a @ (case port of None \<Rightarrow> [] | Some p \<Rightarrow> '':'' @ itoa (int p))"
  have "CHR ''/'' \<notin> set rest"
    using assms(1) plain_itoa_nat by (cases a) (auto simp: rest_def split: option.split)
  then have cut: "(case cut_on ''://'' (target_text transport a port) of None \<Rightarrow>
      (''udp'', target_text transport a port) | Some p \<Rightarrow> p) =
      (case transport of None \<Rightarrow> ''udp'' | Some t \<Rightarrow> t, rest)"
    using assms(2) by (auto simp: target_text_def cut_on_None cut_on_first simp flip: rest_def
        split: option.split)
  show ?thesis
  proof (cases port)
    case None
    have "plain_host ''0''" by (simp add: plain_host_def)
    from SplitHostPort_address [OF assms(1) this] SplitHostPort_address_missing [OF assms(1)] None
    show ?thesis unfolding parse_target_def cut by (simp add: rest_def)
  next
    case (Some p)
    then have p: "p \<le> 65535" using assms(3) by simp
    then have "in_i64 (int p)" by (simp add: in_i64_def)
    from atoi_itoa [OF this] p Some SplitHostPort_address [OF assms(1) conjunct1 [OF plain_itoa_nat]]
    show ?thesis unfolding parse_target_def cut by (simp add: rest_def)
  qed
qed

text \<open>A port that is accepted is the number that was written: it is never cut to 16 bits.\<close>

lemma parse_target_port:
  assumes "parse_target target = Inr (transport, host, port)"
  shows "port = 161 \<or> (\<exists>text. atoi text = (uint port, None))"
proof -
  have "uint (word_of_int p :: 16 word) = p" if "0 \<le> p" "p \<le> 65535" for p
    using that by (simp add: take_bit_int_eq_self unsigned_of_int)
  then show ?thesis using assms
    by (fastforce simp: parse_target_def split: option.splits prod.splits if_splits num_error.splits)
qed

end
