(* ===== verification/Scrape.thy ===== *)
theory Scrape
  imports Scraper Config
begin

text \<open>
  \<open>ScrapeTarget\<close> of \<open>collector/collector.go\<close> and its helpers: dynamic filters turn walks into
  GETs, GETs go out in batches, then the subtrees are walked. The scraper is any record of
  the interface. The locale \<open>call_log\<close> states what a scraper's log of calls is; the requests
  of a scrape are proved there once and hold for the mock (whose log the repository's tests
  read) and for any scraper put behind \<open>logged\<close>.
\<close>

section \<open>Filters\<close>

definition intersectIndices :: "string list \<Rightarrow> string list \<Rightarrow> string list" where
  "intersectIndices a b = filter (\<lambda>idx. idx \<in> set b) a"

text \<open>The loop over the values of a filter, which stops at the first expression that matches.\<close>

fun matches_any ::
  "runtime \<Rightarrow> SnmpPDU \<Rightarrow> string list \<Rightarrow> Metrics \<Rightarrow> (bool \<times> Metrics) go" where
  "matches_any rt pdu [] metrics = Inr (False, metrics)"
| "matches_any rt pdu (val # vals) metrics =
     bindG (pduValueAsString rt pdu ''DisplayString'' [] metrics) (\<lambda>(snmpval, metrics').
       case matchString rt val snmpval of
         None \<Rightarrow> Inl (BadRegexp val)
       | Some True \<Rightarrow> Inr (True, metrics')
       | Some False \<Rightarrow> matches_any rt pdu vals metrics')"

fun filterAllowedIndices :: "runtime \<Rightarrow> DynamicFilter \<Rightarrow> SnmpPDU list \<Rightarrow> string list \<Rightarrow> Metrics
    \<Rightarrow> (string list \<times> Metrics) go" where
  "filterAllowedIndices rt flt [] allowedList metrics = Inr (allowedList, metrics)"
| "filterAllowedIndices rt flt (pdu # pdus) allowedList metrics =
     bindG (matches_any rt pdu (filter_Values flt) metrics) (\<lambda>(found, metrics').
       filterAllowedIndices rt flt pdus
         (if found then allowedList @ [last (split_on CHR ''.'' (pdu_Name pdu))] else allowedList)
         metrics')"

definition updateWalkConfig :: "string list \<Rightarrow> DynamicFilter \<Rightarrow> string list" where
  "updateWalkConfig walkConfig flt =
     filter (\<lambda>elem. \<not> list_ex (\<lambda>targetOid. elem = targetOid) (filter_Targets flt)) walkConfig"

definition updateGetConfig :: "string list \<Rightarrow> DynamicFilter \<Rightarrow> string list" where
  "updateGetConfig getConfig flt =
     filter (\<lambda>elem. \<not> list_ex (\<lambda>targetOid. hasPrefix elem targetOid) (filter_Targets flt)) getConfig"

definition addAllowedIndices :: "DynamicFilter \<Rightarrow> string list \<Rightarrow> string list \<Rightarrow> string list" where
  "addAllowedIndices flt allowedList newCfg =
     newCfg @ concat (map (\<lambda>targetOid. map (\<lambda>index. targetOid @ ''.'' @ index) allowedList)
       (filter_Targets flt))"

text \<open>What the loop over the filters carries: the walks left, the indices allowed for each
  target so far, and the targets in the order they first appeared.\<close>

record filter_state =
  newWalk :: "string list"
  allowedIndicesByTarget :: "string \<Rightarrow> string list option"
  filteredTargets :: "string list"

definition allow_target :: "string list \<Rightarrow> string \<Rightarrow> filter_state \<Rightarrow> filter_state" where
  "allow_target allowedList targetOid st =
     (case allowedIndicesByTarget st targetOid of
        Some existing \<Rightarrow> st\<lparr>allowedIndicesByTarget :=
          (allowedIndicesByTarget st)(targetOid \<mapsto> intersectIndices existing allowedList)\<rparr>
      | None \<Rightarrow> st\<lparr>filteredTargets := filteredTargets st @ [targetOid],
          allowedIndicesByTarget := (allowedIndicesByTarget st)(targetOid \<mapsto> allowedList)\<rparr>)"

text \<open>One filter: a failed walk of its OID leaves everything as it was.\<close>

definition apply_filter :: "'c SNMPScraper \<Rightarrow> runtime \<Rightarrow> DynamicFilter
    \<Rightarrow> filter_state \<times> Metrics \<times> 'c \<Rightarrow> (filter_state \<times> Metrics \<times> 'c) go" where
  "apply_filter snmp rt flt s = (case s of (st, metrics, c) \<Rightarrow>
     (case WalkAll snmp (filter_Oid flt) c of
        (Inl _, c') \<Rightarrow> Inr (st, metrics, c')
      | (Inr pdus, c') \<Rightarrow>
          bindG (filterAllowedIndices rt flt pdus [] metrics) (\<lambda>(allowedList, metrics').
            Inr (fold (allow_target allowedList) (filter_Targets flt)
                   (st\<lparr>newWalk := updateWalkConfig (newWalk st) flt\<rparr>), metrics', c'))))"

text \<open>The combined filters, one target after the other.\<close>

definition apply_targets :: "filter_state \<Rightarrow> string list \<Rightarrow> string list" where
  "apply_targets st getConfig = fold (\<lambda>targetOid newGet.
     let singleTarget = \<lparr>filter_Oid = [], filter_Targets = [targetOid], filter_Values = []\<rparr>
     in addAllowedIndices singleTarget (the (allowedIndicesByTarget st targetOid))
          (updateGetConfig newGet singleTarget))
     (filteredTargets st) getConfig"

section \<open>Requests\<close>

definition not_supported :: "SnmpPDU \<Rightarrow> bool" where
  "not_supported v \<longleftrightarrow>
     pdu_Type v = NoSuchObject \<or> pdu_Type v = NoSuchInstance \<or> pdu_Type v = EndOfMibView"

definition maxOids_of :: "Auth \<Rightarrow> Module \<Rightarrow> nat" where
  "maxOids_of auth module =
     (let m = unat (MaxRepetitions (module_WalkParams module))
      in if m = 0 \<or> auth_Version auth = 1 then 1 else m)"

text \<open>The loop of GETs; \<open>None\<close> would be a loop that does not end.\<close>

partial_function (option) get_loop :: "'c SNMPScraper \<Rightarrow> string \<Rightarrow> int \<Rightarrow> nat \<Rightarrow> string list
    \<Rightarrow> SnmpPDU list \<Rightarrow> 'c \<Rightarrow> ((SnmpPDU list \<times> scrape_error option) \<times> 'c) option" where
  "get_loop snmp target version maxOids getOids results c =
     (if getOids = [] then Some ((results, None), c)
      else let oids = min (length getOids) maxOids in
        (case Get snmp (take oids getOids) c of
           (Inl err, c') \<Rightarrow> Some ((results, Some err), c')
         | (Inr packet, c') \<Rightarrow>
             if packet_Error packet = NoSuchName \<and> version = 1
             then get_loop snmp target version maxOids (drop oids getOids) results c'
             else if packet_Error packet \<noteq> NoError
             then Some ((results, Some (ErrorStatus target (packet_Error packet))), c')
             else get_loop snmp target version maxOids (drop oids getOids)
               (results @ filter (\<lambda>v. \<not> not_supported v) (packet_Variables packet)) c'))"

declare get_loop.simps [code]

fun walk_loop :: "'c SNMPScraper \<Rightarrow> string list \<Rightarrow> SnmpPDU list \<Rightarrow> 'c
    \<Rightarrow> (SnmpPDU list \<times> scrape_error option) \<times> 'c" where
  "walk_loop snmp [] results c = ((results, None), c)"
| "walk_loop snmp (subtree # rest) results c =
     (case WalkAll snmp subtree c of
        (Inl err, c') \<Rightarrow> ((results, Some err), c')
      | (Inr pdus, c') \<Rightarrow> walk_loop snmp rest (results @ pdus) c')"

definition filter_init :: "Module \<Rightarrow> filter_state" where
  "filter_init module = \<lparr>newWalk = module_Walk module, allowedIndicesByTarget = Map.empty,
     filteredTargets = []\<rparr>"

text \<open>The requests of a scrape once the filters are evaluated.\<close>

definition scrape_requests :: "'c SNMPScraper \<Rightarrow> string \<Rightarrow> Auth \<Rightarrow> Module \<Rightarrow> filter_state \<Rightarrow> 'c
    \<Rightarrow> ((SnmpPDU list \<times> scrape_error option) \<times> 'c) option" where
  "scrape_requests snmp target auth module st c =
     (case get_loop snmp target (auth_Version auth) (maxOids_of auth module)
             (apply_targets st (module_Get module)) [] c of
        None \<Rightarrow> None
      | Some ((results, Some err), c') \<Rightarrow> Some ((results, Some err), c')
      | Some ((results, None), c') \<Rightarrow> Some (walk_loop snmp (newWalk st) results c'))"

text \<open>Outer \<open>None\<close>: no return; \<open>Inl\<close>: panic; then the results and the error.\<close>

definition ScrapeTarget :: "'c SNMPScraper \<Rightarrow> runtime \<Rightarrow> string \<Rightarrow> Auth \<Rightarrow> Module \<Rightarrow> Metrics \<Rightarrow> 'c
    \<Rightarrow> ((SnmpPDU list \<times> scrape_error option) \<times> Metrics \<times> 'c) go option" where
  "ScrapeTarget snmp rt target auth module metrics c =
     (case foldG (apply_filter snmp rt) (module_Filters module) (filter_init module, metrics, c) of
        Inl p \<Rightarrow> Some (Inl p)
      | Inr (st, metrics', c') \<Rightarrow>
          map_option (\<lambda>(r, c''). Inr (r, metrics', c''))
            (scrape_requests snmp target auth module st c'))"

section \<open>The scrape ends\<close>

lemma maxOids_pos: "0 < maxOids_of auth module"
  by (simp add: maxOids_of_def Let_def)

lemma get_loop_total:
  assumes "0 < maxOids"
  shows "\<exists>r. get_loop snmp target version maxOids getOids results c = Some r"
proof (induction getOids arbitrary: results c rule: length_induct)
  case (1 getOids)
  show ?case
  proof (cases "getOids = []")
    case True
    then show ?thesis by (simp add: get_loop.simps)
  next
    case False
    then have "length (drop (min (length getOids) maxOids) getOids) < length getOids"
      using assms by (cases getOids) auto
    with 1 have "\<exists>r. get_loop snmp target version maxOids
        (drop (min (length getOids) maxOids) getOids) rs c' = Some r" for rs c'
      by blast
    then show ?thesis
      by (subst get_loop.simps) (auto simp: Let_def split: prod.split sum.split)
  qed
qed

lemma ScrapeTarget_total: "\<exists>r. ScrapeTarget snmp rt target auth module metrics c = Some r"
proof (cases "foldG (apply_filter snmp rt) (module_Filters module) (filter_init module, metrics, c)")
  case (Inr s)
  obtain st mx c' where s: "s = (st, mx, c')" by (cases s)
  obtain rs e c'' where "get_loop snmp target (auth_Version auth) (maxOids_of auth module)
      (apply_targets st (module_Get module)) [] c' = Some ((rs, e), c'')"
    using get_loop_total [OF maxOids_pos] by (metis surj_pair)
  with Inr s show ?thesis
    by (cases e) (simp_all add: ScrapeTarget_def scrape_requests_def)
qed (simp add: ScrapeTarget_def)

section \<open>Which requests go out\<close>

datatype request = ReqGet "string list" | ReqWalk string

text \<open>The batches of a list of OIDs.\<close>

function batches :: "nat \<Rightarrow> 'a list \<Rightarrow> 'a list list" where
  "batches n xs = (if xs = [] \<or> n = 0 then [] else take n xs # batches n (drop n xs))"
  by pat_completeness auto
termination by (relation "measure (\<lambda>(n, xs). length xs)") auto

declare batches.simps [simp del]

lemma batches_Nil [simp]: "batches n [] = []"
  by (simp add: batches.simps)

lemma concat_batches: "0 < n \<Longrightarrow> concat (batches n xs) = xs"
proof (induction n xs rule: batches.induct)
  case (1 n xs)
  then show ?case by (subst batches.simps) auto
qed

lemma length_batches: "\<forall>b \<in> set (batches n xs). b \<noteq> [] \<and> length b \<le> n"
proof (induction n xs rule: batches.induct)
  case (1 n xs)
  then show ?case by (subst batches.simps) auto
qed


lemma batch_step:
  assumes "getOids \<noteq> []" "0 < n"
  shows "batches n getOids = take (min (length getOids) n) getOids
    # batches n (drop (min (length getOids) n) getOids)"
  using assms by (subst batches.simps) (simp add: min_def)

text \<open>
  A log of the calls made through an interface: \<open>log c\<close> is what the client state \<open>c\<close> remembers,
  and every call adds itself, whatever it returns.
\<close>

locale call_log =
  fixes snmp :: "'c SNMPScraper"
    and log :: "'c \<Rightarrow> 'l"
    and add :: "request \<Rightarrow> 'l \<Rightarrow> 'l"
  assumes log_Get: "log (snd (Get snmp oids c)) = add (ReqGet oids) (log c)"
    and log_WalkAll: "log (snd (WalkAll snmp oid c)) = add (ReqWalk oid) (log c)"
begin

lemma log_get_loop:
  assumes "get_loop snmp target version maxOids getOids results c = Some ((rs, None), c')"
    and "0 < maxOids"
  shows "log c' = fold add (map ReqGet (batches maxOids getOids)) (log c)"
  using assms(1)
proof (induction getOids arbitrary: results c rule: length_induct)
  case (1 getOids)
  show ?case
  proof (cases "getOids = []")
    case True
    with "1.prems" show ?thesis by (simp add: get_loop.simps)
  next
    case False
    let ?oids = "min (length getOids) maxOids"
    obtain r c1 where g: "Get snmp (take ?oids getOids) c = (r, c1)" by fastforce
    with log_Get [of "take ?oids getOids" c]
    have l: "log c1 = add (ReqGet (take ?oids getOids)) (log c)" by simp
    from g False "1.prems" obtain results' where
      "get_loop snmp target version maxOids (drop ?oids getOids) results' c1 = Some ((rs, None), c')"
      by (subst (asm) get_loop.simps) (auto simp: Let_def split: sum.splits if_splits)
    moreover have "length (drop ?oids getOids) < length getOids"
      using False assms(2) by (cases getOids) auto
    ultimately have "log c' = fold add (map ReqGet (batches maxOids (drop ?oids getOids))) (log c1)"
      using "1.IH" by blast
    then show ?thesis by (simp add: batch_step [OF False assms(2)] l)
  qed
qed

lemma log_walk_loop:
  "walk_loop snmp subtrees results c = ((rs, None), c') \<Longrightarrow>
   log c' = fold add (map ReqWalk subtrees) (log c)"
proof (induction subtrees arbitrary: results c)
  case (Cons oid subtrees)
  obtain r c1 where w: "WalkAll snmp oid c = (r, c1)" by fastforce
  with log_WalkAll [of oid c] have "log c1 = add (ReqWalk oid) (log c)" by simp
  moreover from w Cons.prems obtain pdus where "walk_loop snmp subtrees (results @ pdus) c1 = ((rs, None), c')"
    by (auto split: sum.splits)
  ultimately show ?case using Cons.IH by simp
qed simp

lemma log_scrape_requests:
  assumes "scrape_requests snmp target auth module st c = Some ((rs, None), c')"
  shows "log c' = fold add (map ReqGet (batches (maxOids_of auth module)
      (apply_targets st (module_Get module))) @ map ReqWalk (newWalk st)) (log c)"
proof -
  from assms obtain rs1 c1 where
    "get_loop snmp target (auth_Version auth) (maxOids_of auth module)
       (apply_targets st (module_Get module)) [] c = Some ((rs1, None), c1)"
    "walk_loop snmp (newWalk st) rs1 c1 = ((rs, None), c')"
    by (auto simp: scrape_requests_def split: option.splits)
  with log_get_loop [OF this(1) maxOids_pos] log_walk_loop [OF this(2)] show ?thesis by simp
qed

lemma log_apply_filter:
  "apply_filter snmp rt flt (st, mx, c) = Inr (st', mx', c') \<Longrightarrow>
   log c' = add (ReqWalk (filter_Oid flt)) (log c)"
  using log_WalkAll [of "filter_Oid flt" c]
  by (auto simp: apply_filter_def split: prod.splits sum.splits)

lemma log_apply_filters:
  "foldG (apply_filter snmp rt) flts (st, mx, c) = Inr (st', mx', c') \<Longrightarrow>
   log c' = fold add (map (\<lambda>f. ReqWalk (filter_Oid f)) flts) (log c)"
proof (induction flts arbitrary: st mx c)
  case (Cons f flts)
  then obtain st1 mx1 c1 where
    "apply_filter snmp rt f (st, mx, c) = Inr (st1, mx1, c1)"
    "foldG (apply_filter snmp rt) flts (st1, mx1, c1) = Inr (st', mx', c')" by auto
  with Cons.IH log_apply_filter show ?case by simp
qed simp

text \<open>Everything a successful scrape asks for, in order.\<close>

lemma log_ScrapeTarget:
  assumes "ScrapeTarget snmp rt target auth module mx c = Some (Inr ((rs, None), mx', c'))"
  obtains st c1 where
    "foldG (apply_filter snmp rt) (module_Filters module) (filter_init module, mx, c) = Inr (st, mx', c1)"
    "log c' = fold add (map (\<lambda>f. ReqWalk (filter_Oid f)) (module_Filters module)
       @ map ReqGet (batches (maxOids_of auth module) (apply_targets st (module_Get module)))
       @ map ReqWalk (newWalk st)) (log c)"
proof -
  from assms obtain st c1 where
    f: "foldG (apply_filter snmp rt) (module_Filters module) (filter_init module, mx, c) = Inr (st, mx', c1)"
    and r: "scrape_requests snmp target auth module st c1 = Some ((rs, None), c')"
    by (auto simp: ScrapeTarget_def split: sum.splits)
  from that [OF f] log_scrape_requests [OF r] log_apply_filters [OF f] show thesis by simp
qed

end

text \<open>The mock keeps the OIDs of all GETs and of all walks.\<close>

definition mock_add :: "request \<Rightarrow> string list \<times> string list \<Rightarrow> string list \<times> string list" where
  "mock_add r l = (case r of ReqGet oids \<Rightarrow> (fst l @ oids, snd l) | ReqWalk oid \<Rightarrow> (fst l, snd l @ [oid]))"

lemma mock_Get_eq:
  "mock_Get oids m = (Inr \<lparr>packet_Variables = map (mock_response m) oids, packet_Error = NoError\<rparr>,
     m\<lparr>callGet := callGet m @ oids\<rparr>)"
proof -
  have "fold (\<lambda>oid (pdus, m). (pdus @ [mock_response m oid], m\<lparr>callGet := callGet m @ [oid]\<rparr>))
      oids (pdus, m) = (pdus @ map (mock_response m) oids, m\<lparr>callGet := callGet m @ oids\<rparr>)" for pdus
    by (induction oids arbitrary: pdus m) (simp_all add: mock_response_def)
  then show ?thesis by (simp add: mock_Get_def)
qed

interpretation mock: call_log mock_scraper "\<lambda>m. (callGet m, callWalk m)" mock_add
  by unfold_locales (simp_all add: mock_scraper_def mock_Get_eq mock_WalkAll_def mock_add_def Let_def)

text \<open>Any scraper with a log of its requests beside its own state.\<close>

definition logged :: "'c SNMPScraper \<Rightarrow> ('c \<times> request list) SNMPScraper" where
  "logged snmp = \<lparr>
     Get = (\<lambda>oids (c, l). case Get snmp oids c of (r, c') \<Rightarrow> (r, (c', l @ [ReqGet oids]))),
     WalkAll = (\<lambda>oid (c, l). case WalkAll snmp oid c of (r, c') \<Rightarrow> (r, (c', l @ [ReqWalk oid]))),
     Connect = (\<lambda>(c, l). case Connect snmp c of (r, c') \<Rightarrow> (r, (c', l))),
     Close = (\<lambda>(c, l). case Close snmp c of (r, c') \<Rightarrow> (r, (c', l))),
     SetOptions = (\<lambda>fns (c, l). bindG (SetOptions snmp fns c) (\<lambda>c'. Inr (c', l)))\<rparr>"

interpretation logged: call_log "logged snmp" snd "\<lambda>r l. l @ [r]" for snmp
  by unfold_locales (auto simp: logged_def split: prod.splits)

lemma fold_snoc: "fold (\<lambda>r l. l @ [r]) rs l = l @ rs"
  by (induction rs arbitrary: l) simp_all

lemma logged_simps:
  "Get (logged snmp) oids (c, l) = (fst (Get snmp oids c), snd (Get snmp oids c), l @ [ReqGet oids])"
  "WalkAll (logged snmp) oid (c, l) = (fst (WalkAll snmp oid c), snd (WalkAll snmp oid c), l @ [ReqWalk oid])"
  by (simp_all add: logged_def split: prod.split)


text \<open>The log changes nothing else.\<close>

lemma logged_get_loop:
  "0 < maxOids \<Longrightarrow> map_option (\<lambda>(r, c, _). (r, c)) (get_loop (logged snmp) target version maxOids getOids results (c, l))
   = get_loop snmp target version maxOids getOids results c"
proof (induction getOids arbitrary: results c l rule: length_induct)
  case (1 getOids)
  show ?case
  proof (cases "getOids = []")
    case True
    then show ?thesis by (simp add: get_loop.simps)
  next
    case False
    let ?oids = "min (length getOids) maxOids"
    have "length (drop ?oids getOids) < length getOids"
      using False "1.prems" by (cases getOids) auto
    with 1 have IH: "map_option (\<lambda>(r, c, _). (r, c))
        (get_loop (logged snmp) target version maxOids (drop ?oids getOids) rs (c', l'))
      = get_loop snmp target version maxOids (drop ?oids getOids) rs c'" for rs c' l' by blast
    obtain r c1 where g: "Get snmp (take ?oids getOids) c = (r, c1)" by fastforce
    show ?thesis
      by (subst (1 2) get_loop.simps)
        (use False IH in \<open>auto simp: Let_def logged_simps g split: sum.split\<close>)
  qed
qed

lemma logged_walk_loop:
  "(\<lambda>(r, c, _). (r, c)) (walk_loop (logged snmp) subtrees results (c, l)) = walk_loop snmp subtrees results c"
proof (induction subtrees arbitrary: results c l)
  case (Cons oid subtrees)
  obtain r c1 where w: "WalkAll snmp oid c = (r, c1)" by fastforce
  show ?case using Cons by (cases r) (simp_all add: logged_simps w)
qed simp

section \<open>What the filters leave to be asked for\<close>

text \<open>The filters whose walk succeeded, with the indices each allows.\<close>

fun filter_results :: "'c SNMPScraper \<Rightarrow> runtime \<Rightarrow> DynamicFilter list \<Rightarrow> Metrics \<Rightarrow> 'c
    \<Rightarrow> (DynamicFilter \<times> string list) list go" where
  "filter_results snmp rt [] metrics c = Inr []"
| "filter_results snmp rt (flt # flts) metrics c =
     (case WalkAll snmp (filter_Oid flt) c of
        (Inl _, c') \<Rightarrow> filter_results snmp rt flts metrics c'
      | (Inr pdus, c') \<Rightarrow>
          bindG (filterAllowedIndices rt flt pdus [] metrics) (\<lambda>(al, metrics').
          bindG (filter_results snmp rt flts metrics' c') (\<lambda>es. Inr ((flt, al) # es))))"

definition add_result :: "DynamicFilter \<times> string list \<Rightarrow> filter_state \<Rightarrow> filter_state" where
  "add_result e st = (case e of (flt, al) \<Rightarrow>
     fold (allow_target al) (filter_Targets flt) (st\<lparr>newWalk := updateWalkConfig (newWalk st) flt\<rparr>))"

lemma apply_filter_walked:
  "WalkAll snmp (filter_Oid f) c = (Inr pdus, c1) \<Longrightarrow> apply_filter snmp rt f (st, mx, c) =
   bindG (filterAllowedIndices rt f pdus [] mx) (\<lambda>(al, mx'). Inr (add_result (f, al) st, mx', c1))"
  by (simp add: apply_filter_def add_result_def)

lemma apply_filters_results:
  "foldG (apply_filter snmp rt) flts (st, mx, c) = Inr (st', mx', c') \<Longrightarrow>
   \<exists>es. filter_results snmp rt flts mx c = Inr es \<and> st' = fold add_result es st"
proof (induction flts arbitrary: st mx c)
  case (Cons f flts)
  obtain r c1 where w: "WalkAll snmp (filter_Oid f) c = (r, c1)" by fastforce
  show ?case
  proof (cases r)
    case (Inl e)
    with Cons w show ?thesis by (simp add: apply_filter_def)
  next
    case (Inr pdus)
    with Cons.prems w obtain al mx1 where
      a: "filterAllowedIndices rt f pdus [] mx = Inr (al, mx1)" and
      r: "foldG (apply_filter snmp rt) flts (add_result (f, al) st, mx1, c1) = Inr (st', mx', c')"
      by (auto simp: apply_filter_walked)
    from Cons.IH [OF r] obtain es where
      "filter_results snmp rt flts mx1 c1 = Inr es" "st' = fold add_result es (add_result (f, al) st)"
      by blast
    with Inr w a show ?thesis by simp
  qed
qed simp

text \<open>The indices the filters of a target allow together; \<open>None\<close> for no filter at all.\<close>

fun allowed_spec :: "(DynamicFilter \<times> string list) list \<Rightarrow> string \<Rightarrow> string list option \<Rightarrow> string list option" where
  "allowed_spec [] t a = a"
| "allowed_spec ((flt, al) # es) t a = allowed_spec es t
     (if t \<in> set (filter_Targets flt)
      then Some (case a of None \<Rightarrow> al | Some b \<Rightarrow> filter (\<lambda>i. i \<in> set al) b) else a)"

lemma allow_targets_allowed:
  "allowedIndicesByTarget (fold (allow_target al) ts st) t =
   (if t \<in> set ts then Some (case allowedIndicesByTarget st t of None \<Rightarrow> al
      | Some b \<Rightarrow> filter (\<lambda>i. i \<in> set al) b) else allowedIndicesByTarget st t)"
proof (induction ts arbitrary: st)
  case (Cons u ts)
  have "filter (\<lambda>i. i \<in> set al) (filter (\<lambda>i. i \<in> set al) b) = filter (\<lambda>i. i \<in> set al) b" for b
    by simp
  moreover have "filter (\<lambda>i. i \<in> set al) al = al" by (simp add: filter_id_conv)
  ultimately show ?case using Cons
    by (auto simp: allow_target_def intersectIndices_def split: option.split)
qed simp

lemma allow_targets_walk [simp]: "newWalk (fold (allow_target al) ts st) = newWalk st"
  by (induction ts arbitrary: st) (simp_all add: allow_target_def split: option.split)

text \<open>The targets listed are the targets with an entry, once each.\<close>

definition targets_inv :: "filter_state \<Rightarrow> bool" where
  "targets_inv st \<longleftrightarrow> distinct (filteredTargets st) \<and> set (filteredTargets st) = dom (allowedIndicesByTarget st)"

lemma targets_inv_allow: "targets_inv st \<Longrightarrow> targets_inv (allow_target al t st)"
  by (auto simp: targets_inv_def allow_target_def split: option.split)

lemma targets_inv_fold: "targets_inv st \<Longrightarrow> targets_inv (fold (allow_target al) ts st)"
  by (induction ts arbitrary: st) (simp_all add: targets_inv_allow)

lemma targets_inv_add: "targets_inv st \<Longrightarrow> targets_inv (add_result e st)"
proof (cases e)
  case (Pair f al)
  assume "targets_inv st"
  then have "targets_inv (st\<lparr>newWalk := updateWalkConfig (newWalk st) f\<rparr>)"
    by (simp add: targets_inv_def)
  from targets_inv_fold [OF this] show ?thesis by (simp add: Pair add_result_def)
qed

lemma add_results_inv: "targets_inv st \<Longrightarrow> targets_inv (fold add_result es st)"
  by (induction es arbitrary: st) (simp_all add: targets_inv_add)

lemma add_results_allowed:
  "allowedIndicesByTarget (fold add_result es st) t = allowed_spec es t (allowedIndicesByTarget st t)"
  by (induction es arbitrary: st) (auto simp: add_result_def allow_targets_allowed)

lemma add_results_walk:
  "newWalk (fold add_result es st) =
   filter (\<lambda>w. \<forall>e \<in> set es. w \<notin> set (filter_Targets (fst e))) (newWalk st)"
proof (induction es arbitrary: st)
  case (Cons e es)
  obtain f al where e: "e = (f, al)" by (cases e)
  have "newWalk (add_result e st) = filter (\<lambda>w. w \<notin> set (filter_Targets f)) (newWalk st)"
    by (simp add: e add_result_def updateWalkConfig_def list_ex_iff)
  with Cons e show ?case by (auto intro: filter_cong)
qed simp

text \<open>Rows come from one target at a time where no target's text begins another's.\<close>

definition prefix_free :: "string list \<Rightarrow> bool" where
  "prefix_free ts \<longleftrightarrow> (\<forall>t \<in> set ts. \<forall>u \<in> set ts. hasPrefix t u \<longrightarrow> t = u)"

definition target_gets :: "filter_state \<Rightarrow> string \<Rightarrow> string list" where
  "target_gets st t = map (\<lambda>i. t @ ''.'' @ i) (the (allowedIndicesByTarget st t))"

lemma apply_targets_step:
  "addAllowedIndices \<lparr>filter_Oid = [], filter_Targets = [t], filter_Values = []\<rparr>
     (the (allowedIndicesByTarget st t))
     (updateGetConfig g \<lparr>filter_Oid = [], filter_Targets = [t], filter_Values = []\<rparr>)
   = filter (\<lambda>e. \<not> hasPrefix e t) g @ target_gets st t"
  by (simp add: addAllowedIndices_def updateGetConfig_def target_gets_def)

lemma hasPrefix_comparable: "hasPrefix (t @ s) u \<Longrightarrow> hasPrefix t u \<or> hasPrefix u t"
  by (auto simp: hasPrefix_iff append_eq_append_conv2)

lemma apply_targets_prefix_free:
  assumes "distinct (filteredTargets st)" "prefix_free (filteredTargets st)"
  shows "apply_targets st g =
    filter (\<lambda>e. \<forall>t \<in> set (filteredTargets st). \<not> hasPrefix e t) g
    @ concat (map (target_gets st) (filteredTargets st))"
proof -
  let ?step = "\<lambda>t g. filter (\<lambda>e. \<not> hasPrefix e t) g @ target_gets st t"
  have "fold ?step ts (g @ h) = filter (\<lambda>e. \<forall>t \<in> set ts. \<not> hasPrefix e t) g
      @ h @ concat (map (target_gets st) ts)"
    if "distinct ts" "prefix_free ts"
      "\<forall>e \<in> set h. \<forall>t \<in> set ts. \<not> hasPrefix e t" for ts h
    using that
  proof (induction ts arbitrary: g h)
    case (Cons t ts)
    have "filter (\<lambda>e. \<not> hasPrefix e t) h = h"
      using Cons.prems(3) by (simp add: filter_id_conv)
    then have step: "?step t (g @ h) = filter (\<lambda>e. \<not> hasPrefix e t) g @ (h @ target_gets st t)" by simp
    have "\<not> hasPrefix e u" if "e \<in> set (target_gets st t)" "u \<in> set ts" for e u
    proof
      assume "hasPrefix e u"
      with that(1) have "hasPrefix t u \<or> hasPrefix u t"
        by (auto simp: target_gets_def dest: hasPrefix_comparable)
      with that(2) Cons.prems(1,2) show False by (auto simp: prefix_free_def)
    qed
    then have "fold ?step ts (filter (\<lambda>e. \<not> hasPrefix e t) g @ (h @ target_gets st t)) =
        filter (\<lambda>e. \<forall>u \<in> set ts. \<not> hasPrefix e u) (filter (\<lambda>e. \<not> hasPrefix e t) g)
        @ (h @ target_gets st t) @ concat (map (target_gets st) ts)"
      using Cons.prems by (intro Cons.IH) (auto simp: prefix_free_def)
    with step show ?case by (simp add: conj_commute)
  qed simp
  from this [of "filteredTargets st" "[]"] assms show ?thesis
    by (simp add: apply_targets_def Let_def apply_targets_step)
qed


section \<open>Which indices a filter allows\<close>

definition no_metrics :: Metrics where
  "no_metrics = \<lparr>SNMPUnexpectedPduType = 0, SNMPPackets = 0, SNMPRetries = 0, SNMPInflight = 0\<rparr>"

definition filter_text :: "runtime \<Rightarrow> SnmpPDU \<Rightarrow> string go" where
  "filter_text rt pdu = bindG (pduValueAsString rt pdu ''DisplayString'' [] no_metrics) (\<lambda>(s, _). Inr s)"

text \<open>The counter of unexpected types does not change the text.\<close>

lemma filter_text_any:
  "pduValueAsString rt pdu ''DisplayString'' [] mx = Inr (s, mx') \<Longrightarrow> filter_text rt pdu = Inr s"
  by (cases "pdu_Value pdu")
    (auto simp: filter_text_def pduValueAsString_def split: if_splits option.splits)

text \<open>A value of the filter is an expression that matches the text of the variable.\<close>

definition row_matches :: "runtime \<Rightarrow> string list \<Rightarrow> SnmpPDU \<Rightarrow> bool" where
  "row_matches rt vals pdu \<longleftrightarrow> list_ex (\<lambda>val. case filter_text rt pdu of
     Inr s \<Rightarrow> matchString rt val s = Some True | Inl _ \<Rightarrow> False) vals"

lemma matches_any_spec:
  "matches_any rt pdu vals mx = Inr (found, mx') \<Longrightarrow> found = row_matches rt vals pdu"
proof (induction vals arbitrary: mx)
  case (Cons val vals)
  then obtain s mx1 where s: "pduValueAsString rt pdu ''DisplayString'' [] mx = Inr (s, mx1)"
    by auto
  with Cons show ?case
    by (auto simp: row_matches_def filter_text_any [OF s] split: option.splits bool.splits)
qed (simp add: row_matches_def)

definition row_index :: "SnmpPDU \<Rightarrow> string" where
  "row_index pdu = last (split_on CHR ''.'' (pdu_Name pdu))"

lemma filterAllowedIndices_Cons:
  "filterAllowedIndices rt flt (pdu # pdus) al mx =
   bindG (matches_any rt pdu (filter_Values flt) mx) (\<lambda>(found, mx').
     filterAllowedIndices rt flt pdus (if found then al @ [row_index pdu] else al) mx')"
  unfolding row_index_def by simp

lemma filterAllowedIndices_spec:
  "filterAllowedIndices rt flt pdus al mx = Inr (al', mx') \<Longrightarrow>
   al' = al @ map row_index (filter (row_matches rt (filter_Values flt)) pdus)"
proof (induction pdus arbitrary: al mx)
  case (Cons pdu pdus)
  then obtain found mx1 where
    m: "matches_any rt pdu (filter_Values flt) mx = Inr (found, mx1)" and
    r: "filterAllowedIndices rt flt pdus (if found then al @ [row_index pdu] else al) mx1 = Inr (al', mx')"
    unfolding filterAllowedIndices_Cons by auto
  from Cons.IH [OF r] matches_any_spec [OF m] show ?case by auto
qed simp

text \<open>
  Every filter whose walk succeeded allows the indices of its matching rows, and an index is
  asked for under a target exactly when every such filter on that target allows it.
\<close>

lemma filter_results_indices:
  assumes "filter_results snmp rt flts mx c = Inr es" "(flt, al) \<in> set es"
  shows "flt \<in> set flts \<and> (\<exists>pdus. al = map row_index (filter (row_matches rt (filter_Values flt)) pdus))"
  using assms
proof (induction flts arbitrary: mx c es)
  case (Cons f flts)
  obtain r c1 where w: "WalkAll snmp (filter_Oid f) c = (r, c1)" by fastforce
  show ?case
  proof (cases r)
    case (Inl e)
    with Cons w show ?thesis by fastforce
  next
    case (Inr pdus)
    with Cons.prems(1) w obtain al' mx1 es' where
      a: "filterAllowedIndices rt f pdus [] mx = Inr (al', mx1)" and
      r: "filter_results snmp rt flts mx1 c1 = Inr es'" and es: "es = (f, al') # es'"
      by auto
    from es Cons.prems(2) consider "flt = f" "al = al'" | "(flt, al) \<in> set es'" by auto
    then show ?thesis
    proof cases
      case 1
      with filterAllowedIndices_spec [OF a] show ?thesis by auto
    next
      case 2
      from Cons.IH [OF r 2] show ?thesis by auto
    qed
  qed
qed simp

lemma allowed_spec_member:
  "(case allowed_spec es t a of None \<Rightarrow> True | Some is \<Rightarrow> i \<in> set is) \<longleftrightarrow>
   (case a of None \<Rightarrow> True | Some is \<Rightarrow> i \<in> set is) \<and>
   (\<forall>(flt, al) \<in> set es. t \<in> set (filter_Targets flt) \<longrightarrow> i \<in> set al)"
  by (induction es t a rule: allowed_spec.induct) (auto split: option.splits)

lemma allowed_spec_None: "allowed_spec es t None = None \<longleftrightarrow> (\<forall>e \<in> set es. t \<notin> set (filter_Targets (fst e)))"
proof -
  have some: "allowed_spec es t (Some b) \<noteq> None" for es b
    by (induction es arbitrary: b) auto
  show ?thesis by (induction es) (auto simp: some split: if_splits)
qed

section \<open>What a scrape returns\<close>

lemma get_loop_mock:
  assumes "0 < n"
  shows "get_loop mock_scraper target version n getOids results m =
    Some ((results @ filter (\<lambda>v. \<not> not_supported v) (map (mock_response m) getOids), None),
      m\<lparr>callGet := callGet m @ getOids\<rparr>)"
proof (induction getOids arbitrary: results m rule: length_induct)
  case (1 getOids)
  show ?case
  proof (cases "getOids = []")
    case True
    then show ?thesis by (simp add: get_loop.simps)
  next
    case False
    let ?k = "min (length getOids) n"
    have "length (drop ?k getOids) < length getOids"
      using False assms by (cases getOids) auto
    with 1 have IH: "get_loop mock_scraper target version n (drop ?k getOids) rs m' =
      Some ((rs @ filter (\<lambda>v. \<not> not_supported v) (map (mock_response m') (drop ?k getOids)), None),
        m'\<lparr>callGet := callGet m' @ drop ?k getOids\<rparr>)" for rs m' by blast
    have resp: "mock_response (m\<lparr>callGet := l\<rparr>) = mock_response m" for l
      by (rule ext) (simp add: mock_response_def)
    have split: "filter P (map f getOids) = filter P (map f (take ?k getOids)) @ filter P (map f (drop ?k getOids))"
      for P and f :: "string \<Rightarrow> SnmpPDU"
      by (metis append_take_drop_id filter_append map_append)
    have g: "Get mock_scraper (take ?k getOids) m = (Inr \<lparr>packet_Variables =
        map (mock_response m) (take ?k getOids), packet_Error = NoError\<rparr>,
        m\<lparr>callGet := callGet m @ take ?k getOids\<rparr>)"
      by (simp add: mock_scraper_def mock_Get_eq)
    show ?thesis
      unfolding get_loop.simps [of _ _ _ _ getOids] Let_def g
      using False by (simp add: IH resp split)
  qed
qed

definition mock_walked :: "mockSNMPScraper \<Rightarrow> string \<Rightarrow> SnmpPDU list" where
  "mock_walked m oid = (case WalkResponses m oid of Some pdus \<Rightarrow> pdus | None \<Rightarrow> [])"

lemma walk_loop_mock:
  "walk_loop mock_scraper subtrees results m =
   ((results @ concat (map (mock_walked m) subtrees), None), m\<lparr>callWalk := callWalk m @ subtrees\<rparr>)"
proof (induction subtrees arbitrary: results m)
  case (Cons oid subtrees)
  have "mock_walked (m\<lparr>callWalk := l\<rparr>) = mock_walked m" for l
    by (rule ext) (simp add: mock_walked_def)
  with Cons show ?case
    by (simp add: mock_scraper_def mock_WalkAll_def mock_walked_def Let_def)
qed simp

lemma scrape_requests_mock:
  "scrape_requests mock_scraper target auth module st m =
   Some ((filter (\<lambda>v. \<not> not_supported v) (map (mock_response m) (apply_targets st (module_Get module)))
      @ concat (map (mock_walked m) (newWalk st)), None),
     m\<lparr>callGet := callGet m @ apply_targets st (module_Get module), callWalk := callWalk m @ newWalk st\<rparr>)"
proof -
  have "mock_walked (m\<lparr>callGet := l\<rparr>) = mock_walked m" for l
    by (rule ext) (simp add: mock_walked_def)
  then show ?thesis
    by (simp add: scrape_requests_def get_loop_mock [OF maxOids_pos] walk_loop_mock)
qed

text \<open>A target whose text begins another's takes away the rows already asked for under that one.\<close>

lemma apply_targets_overlap:
  assumes "filteredTargets st = [t, u]" "hasPrefix t u" "allowedIndicesByTarget st u = Some al"
  shows "apply_targets st g = filter (\<lambda>e. \<not> hasPrefix e t \<and> \<not> hasPrefix e u) g @ target_gets st u"
proof -
  have "hasPrefix (t @ ''.'' @ i) u" for i
    using hasPrefix_trans [OF hasPrefix_append assms(2)] .
  then have "filter (\<lambda>e. \<not> hasPrefix e u) (target_gets st t) = []"
    by (auto simp: target_gets_def filter_empty_conv)
  then show ?thesis
    using assms(1) by (simp add: apply_targets_def Let_def apply_targets_step)
qed

text \<open>The rows of a target are lost when the text of a later target begins with the same characters.\<close>

lemma filter_overlap_loses_rows:
  assumes "filteredTargets st = [t, u]" "hasPrefix t u" "allowedIndicesByTarget st u = Some al"
  shows "apply_targets st g = filter (\<lambda>e. \<not> hasPrefix e t \<and> \<not> hasPrefix e u) g @ target_gets st u"
  by (rule apply_targets_overlap [OF assms])

end
