(* ===== verification/ConfigOps.thy ===== *)
theory ConfigOps
  imports Scraper Config
begin

text \<open>
  The operations of \<open>config/config.go\<close>: defaults and checks when a section is unmarshalled, the
  session settings an auth turns into, what is shown of a secret, environment variables, and
  the loading of files. The YAML library, the file system and the environment are parameters.
  Shown: an auth that passed the checks configures exactly the security its level promises,
  secrets are not marshalled, and substitution fails exactly on an unset variable.
\<close>

section \<open>Checks of an auth\<close>

datatype auth_error =
    YamlError string
  | BadVersion int
  | NoPrivPassword
  | BadPrivProtocol
  | NoAuthPassword
  | BadAuthProtocol
  | NoUsername
  | BadSecurityLevel

definition priv_protocols :: "string list" where
  "priv_protocols = [''DES'', ''AES'', ''AES192'', ''AES192C'', ''AES256'', ''AES256C'']"

definition auth_protocols :: "string list" where
  "auth_protocols = [''MD5'', ''SHA'', ''SHA224'', ''SHA256'', ''SHA384'', ''SHA512'']"

text \<open>The cases of the switch, each falling through to the next.\<close>

definition check_username :: "Auth \<Rightarrow> auth_error option" where
  "check_username c = (if Username c = [] then Some NoUsername else None)"

definition check_authNoPriv :: "Auth \<Rightarrow> auth_error option" where
  "check_authNoPriv c =
     (if Password c = [] then Some NoAuthPassword
      else if AuthProtocol c \<notin> set auth_protocols then Some BadAuthProtocol
      else check_username c)"

definition check_authPriv :: "Auth \<Rightarrow> auth_error option" where
  "check_authPriv c =
     (if PrivPassword c = [] then Some NoPrivPassword
      else if PrivProtocol c \<notin> set priv_protocols then Some BadPrivProtocol
      else check_authNoPriv c)"

definition check_auth :: "Auth \<Rightarrow> auth_error option" where
  "check_auth c =
     (if auth_Version c < 1 \<or> auth_Version c > 3 then Some (BadVersion (auth_Version c))
      else if auth_Version c = 3 then
        (if SecurityLevel c = ''authPriv'' then check_authPriv c
         else if SecurityLevel c = ''authNoPriv'' then check_authNoPriv c
         else if SecurityLevel c = ''noAuthNoPriv'' then check_username c
         else Some BadSecurityLevel)
      else None)"

text \<open>The \<open>unmarshal\<close> function of the YAML library fills in the fields the file gives.\<close>

definition Auth_UnmarshalYAML :: "(Auth \<Rightarrow> string + Auth) \<Rightarrow> auth_error + Auth" where
  "Auth_UnmarshalYAML unmarshal = (case unmarshal DefaultAuth of
       Inl e \<Rightarrow> Inl (YamlError e)
     | Inr c \<Rightarrow> (case check_auth c of Some e \<Rightarrow> Inl e | None \<Rightarrow> Inr c))"

text \<open>The pointer to the retries is copied, so that no two modules share it.\<close>

definition Module_UnmarshalYAML :: "(Module \<Rightarrow> string + Module) \<Rightarrow> string + Module" where
  "Module_UnmarshalYAML unmarshal = unmarshal DefaultModule"

definition RegexpExtract_UnmarshalYAML ::
  "(RegexpExtract \<Rightarrow> string + RegexpExtract) \<Rightarrow> string + RegexpExtract" where
  "RegexpExtract_UnmarshalYAML unmarshal = unmarshal DefaultRegexpExtract"

text \<open>An expression is anchored before it is compiled; \<open>compiles\<close> is the regexp library.\<close>

definition Regexp_UnmarshalYAML :: "(string \<Rightarrow> bool) \<Rightarrow> string + string \<Rightarrow> string + string option" where
  "Regexp_UnmarshalYAML compiles unmarshalled = (case unmarshalled of
       Inl e \<Rightarrow> Inl e
     | Inr s \<Rightarrow> (let re = ''^(?:'' @ s @ '')$'' in if compiles re then Inr (Some re) else Inl re))"

definition Regexp_MarshalYAML :: "string option \<Rightarrow> string option" where
  "Regexp_MarshalYAML re = re"

text \<open>What is marshalled of a secret: nothing, a placeholder, or the text when told to.\<close>

definition Secret_MarshalYAML :: "bool \<Rightarrow> Secret \<Rightarrow> string option" where
  "Secret_MarshalYAML doNotHideSecrets s =
     (if doNotHideSecrets then Some s else if s \<noteq> [] then Some ''<secret>'' else None)"

section \<open>Session settings\<close>

definition auth_proto_of :: "string \<Rightarrow> AuthProto option" where
  "auth_proto_of s = map_of [(''SHA'', SHA), (''SHA224'', SHA224), (''SHA256'', SHA256),
     (''SHA384'', SHA384), (''SHA512'', SHA512), (''MD5'', MD5)] s"

definition priv_proto_of :: "string \<Rightarrow> PrivProto option" where
  "priv_proto_of s = map_of [(''DES'', DES), (''AES'', AES), (''AES192'', AES192),
     (''AES192C'', AES192C), (''AES256'', AES256), (''AES256C'', AES256C)] s"

definition ConfigureSNMP :: "Auth \<Rightarrow> string \<Rightarrow> GoSNMP \<Rightarrow> GoSNMP" where
  "ConfigureSNMP c snmpContext g =
     (let g1 = (if auth_Version c = 1 then g\<lparr>gs_Version := Version1\<rparr>
                else if auth_Version c = 2 then g\<lparr>gs_Version := Version2c\<rparr>
                else if auth_Version c = 3 then g\<lparr>gs_Version := Version3\<rparr> else g);
          g2 = g1\<lparr>gs_Community := Community c,
                  gs_ContextName := (if snmpContext = [] then ContextName c else snmpContext),
                  UserSecurityModel := True\<rparr>;
          (g3, auth, priv) =
             (if SecurityLevel c = ''noAuthNoPriv'' then (g2\<lparr>gs_MsgFlags := NoAuthNoPriv\<rparr>, False, False)
              else if SecurityLevel c = ''authNoPriv'' then (g2\<lparr>gs_MsgFlags := AuthNoPriv\<rparr>, True, False)
              else if SecurityLevel c = ''authPriv'' then (g2\<lparr>gs_MsgFlags := AuthPriv\<rparr>, True, True)
              else (g2, False, False));
          usm = \<lparr>usm_UserName = Username c,
                 usm_AuthenticationProtocol = (if auth then auth_proto_of (AuthProtocol c) else None),
                 usm_AuthenticationPassphrase = (if auth then Password c else []),
                 usm_PrivacyProtocol = (if priv then priv_proto_of (PrivProtocol c) else None),
                 usm_PrivacyPassphrase = (if priv then PrivPassword c else [])\<rparr>
      in g3\<lparr>gs_SecurityParameters := Some usm\<rparr>)"

text \<open>Authentication and privacy are set up exactly as the message flags say.\<close>

definition security_consistent :: "GoSNMP \<Rightarrow> bool" where
  "security_consistent g = (case gs_SecurityParameters g of
       None \<Rightarrow> False
     | Some usm \<Rightarrow>
         usm_UserName usm \<noteq> [] \<and>
         ((usm_AuthenticationProtocol usm \<noteq> None) = (gs_MsgFlags g \<noteq> NoAuthNoPriv)) \<and>
         ((usm_AuthenticationPassphrase usm \<noteq> []) = (gs_MsgFlags g \<noteq> NoAuthNoPriv)) \<and>
         ((usm_PrivacyProtocol usm \<noteq> None) = (gs_MsgFlags g = AuthPriv)) \<and>
         ((usm_PrivacyPassphrase usm \<noteq> []) = (gs_MsgFlags g = AuthPriv)))"

lemma auth_proto_of_some: "(auth_proto_of s \<noteq> None) = (s \<in> set auth_protocols)"
  by (auto simp: auth_proto_of_def auth_protocols_def split: if_splits)

lemma priv_proto_of_some: "(priv_proto_of s \<noteq> None) = (s \<in> set priv_protocols)"
  by (auto simp: priv_proto_of_def priv_protocols_def split: if_splits)

lemma ConfigureSNMP_v3:
  assumes "check_auth c = None" "auth_Version c = 3"
  shows "security_consistent (ConfigureSNMP c ctx g) \<and> gs_Version (ConfigureSNMP c ctx g) = Version3"
proof -
  from assms have level: "SecurityLevel c \<in> {''authPriv'', ''authNoPriv'', ''noAuthNoPriv''}"
    by (auto simp: check_auth_def split: if_splits)
  then consider "SecurityLevel c = ''authPriv''" | "SecurityLevel c = ''authNoPriv''"
    | "SecurityLevel c = ''noAuthNoPriv''" by blast
  then show ?thesis
  proof cases
    case 1
    with assms have "check_authPriv c = None" by (simp add: check_auth_def)
    with 1 assms(2) auth_proto_of_some priv_proto_of_some show ?thesis
      by (simp add: check_authPriv_def check_authNoPriv_def check_username_def security_consistent_def
          ConfigureSNMP_def Let_def split: if_splits)
  next
    case 2
    with assms have "check_authNoPriv c = None" by (simp add: check_auth_def)
    with 2 assms(2) auth_proto_of_some show ?thesis
      by (simp add: check_authNoPriv_def check_username_def security_consistent_def
          ConfigureSNMP_def Let_def split: if_splits)
  next
    case 3
    with assms have "check_username c = None" by (simp add: check_auth_def)
    with 3 assms(2) show ?thesis
      by (simp add: check_username_def security_consistent_def ConfigureSNMP_def Let_def split: if_splits)
  qed
qed

lemma ConfigureSNMP_version:
  "check_auth c = None \<Longrightarrow> gs_Version (ConfigureSNMP c ctx g) =
   (if auth_Version c = 1 then Version1 else if auth_Version c = 2 then Version2c else Version3) \<and>
   gs_Community (ConfigureSNMP c ctx g) = Community c"
  by (auto simp: check_auth_def ConfigureSNMP_def Let_def split: if_splits)

text \<open>What configuring leaves of the session that was there: the fields it does not set.\<close>

lemma ConfigureSNMP_frame:
  "Target (ConfigureSNMP c ctx g) = Target g" "Port (ConfigureSNMP c ctx g) = Port g"
  "Transport (ConfigureSNMP c ctx g) = Transport g"
  "AppOpts_c (ConfigureSNMP c ctx g) = AppOpts_c g"
  "gs_UseUnconnectedUDPSocket (ConfigureSNMP c ctx g) = gs_UseUnconnectedUDPSocket g"
  by (simp_all add: ConfigureSNMP_def Let_def)

section \<open>Environment variables\<close>

text \<open>\<open>os.Expand\<close> and its \<open>getShellName\<close>: the name after a dollar sign and the bytes it takes.\<close>

definition isShellSpecialVar :: "char \<Rightarrow> bool" where
  "isShellSpecialVar c \<longleftrightarrow> c \<in> set ''*#$@!?-0123456789''"

definition isAlphaNum :: "char \<Rightarrow> bool" where
  "isAlphaNum c \<longleftrightarrow> c = CHR ''_'' \<or> is_digit c \<or>
     (97 \<le> (of_char c :: nat) \<and> (of_char c :: nat) \<le> 122) \<or>
     (65 \<le> (of_char c :: nat) \<and> (of_char c :: nat) \<le> 90)"

definition getShellName :: "string \<Rightarrow> string \<times> nat" where
  "getShellName s = (case s of
       [] \<Rightarrow> ([], 0)
     | c # rest \<Rightarrow>
         if c = CHR ''{'' then
           (case rest of
              x # y # _ \<Rightarrow> if isShellSpecialVar x \<and> y = CHR ''}'' then ([x], 3)
                else (let name = takeWhile (\<lambda>c. c \<noteq> CHR ''}'') rest in
                  if CHR ''}'' \<notin> set rest then ([], 1)
                  else if name = [] then ([], 2) else (name, length name + 2))
            | _ \<Rightarrow> if CHR ''}'' \<in> set rest then ([], 2) else ([], 1))
         else if isShellSpecialVar c then ([c], 1)
         else (let name = takeWhile isAlphaNum s in (name, length name)))"

text \<open>
  The expansion with the closure of \<open>substituteEnvVariables\<close>: the second argument is
  \<open>missingEnv\<close>, which keeps the first name that is not set; an unset name expands to nothing.
\<close>

function expand_env :: "(string \<Rightarrow> string option) \<Rightarrow> string \<Rightarrow> string \<Rightarrow> string \<times> string" where
  "expand_env env missingEnv [] = ([], missingEnv)"
| "expand_env env missingEnv (c # cs) =
     (if c = CHR ''$'' \<and> cs \<noteq> [] then
        (case getShellName cs of (name, w) \<Rightarrow>
           if name = [] \<and> 0 < w then expand_env env missingEnv (drop w cs)
           else if name = [] then
             (case expand_env env missingEnv (drop w cs) of (r, m) \<Rightarrow> (c # r, m))
           else
             (let m1 = (if env name = None \<and> missingEnv = [] then name else missingEnv);
                  v = (case env name of Some v \<Rightarrow> v | None \<Rightarrow> [])
              in case expand_env env m1 (drop w cs) of (r, m) \<Rightarrow> (v @ r, m)))
      else (case expand_env env missingEnv cs of (r, m) \<Rightarrow> (c # r, m)))"
  by pat_completeness auto
termination by (relation "measure (\<lambda>(env, m, s). length s)") auto

definition substituteEnvVariables :: "(string \<Rightarrow> string option) \<Rightarrow> string \<Rightarrow> string + string" where
  "substituteEnvVariables env text = (case expand_env env [] text of (result, missingEnv) \<Rightarrow>
     if missingEnv \<noteq> [] then Inl missingEnv else Inr result)"

text \<open>A value as its literal characters and its references, from left to right.\<close>

datatype piece = Lit char | Ref string

function pieces_of :: "string \<Rightarrow> piece list" where
  "pieces_of [] = []"
| "pieces_of (c # cs) =
     (if c = CHR ''$'' \<and> cs \<noteq> [] then
        (case getShellName cs of (name, w) \<Rightarrow>
           (if name = [] \<and> 0 < w then [] else if name = [] then [Lit c] else [Ref name])
           @ pieces_of (drop w cs))
      else Lit c # pieces_of cs)"
  by pat_completeness auto
termination by (relation "measure length") auto

fun piece_value :: "(string \<Rightarrow> string option) \<Rightarrow> piece \<Rightarrow> string" where
  "piece_value env (Lit c) = [c]"
| "piece_value env (Ref name) = (case env name of Some v \<Rightarrow> v | None \<Rightarrow> [])"

fun piece_unset :: "(string \<Rightarrow> string option) \<Rightarrow> piece \<Rightarrow> bool" where
  "piece_unset env (Lit c) = False"
| "piece_unset env (Ref name) = (env name = None)"

fun piece_name :: "piece \<Rightarrow> string" where
  "piece_name (Lit c) = []"
| "piece_name (Ref name) = name"

text \<open>The first unset reference, as \<open>missingEnv\<close> records it.\<close>

definition first_unset :: "(string \<Rightarrow> string option) \<Rightarrow> piece list \<Rightarrow> string" where
  "first_unset env ps = (case find (piece_unset env) ps of Some p \<Rightarrow> piece_name p | None \<Rightarrow> [])"

lemma first_unset_append_Lit: "first_unset env (Lit c # ps) = first_unset env ps"
  by (simp add: first_unset_def)

lemma expand_env_pieces:
  "expand_env env missing s = (concat (map (piece_value env) (pieces_of s)),
     if missing = [] then first_unset env (pieces_of s) else missing)"
proof (induction env missing s rule: expand_env.induct)
  case (1 env missing)
  then show ?case by (simp add: first_unset_def)
next
  case (2 env missing c cs)
  show ?case
  proof (cases "c = CHR ''$'' \<and> cs \<noteq> []")
    case False
    have p: "pieces_of (c # cs) = Lit c # pieces_of cs"
      unfolding pieces_of.simps(2) if_not_P [OF False] by (rule refl)
    have e: "expand_env env missing (c # cs) =
        (case expand_env env missing cs of (r, m) \<Rightarrow> (c # r, m))"
      unfolding expand_env.simps(2) if_not_P [OF False] by (rule refl)
    from 2(4) [OF False] show ?thesis unfolding p e by (simp add: first_unset_append_Lit)
  next
    case ref: True
    obtain name w where n: "getShellName cs = (name, w)" by fastforce
    consider "name = []" "0 < w" | "name = []" "w = 0" | "name \<noteq> []" by blast
    then show ?thesis
    proof cases
      case 1
      with 2 ref n show ?thesis by simp
    next
      case e: 2
      with 2 ref n show ?thesis by (simp add: first_unset_append_Lit)
    next
      case 3
      with 2 ref n show ?thesis
        by (cases "env name") (simp_all add: first_unset_def Let_def)
    qed
  qed
qed

lemma pieces_Ref_nonempty: "Ref name \<in> set (pieces_of s) \<Longrightarrow> name \<noteq> []"
  by (induction s rule: pieces_of.induct) (auto split: if_splits prod.splits)

lemma first_unset_ref:
  assumes "find (piece_unset env) (pieces_of s) = Some p"
  shows "first_unset env (pieces_of s) = piece_name p" "piece_name p \<noteq> []"
proof -
  show "first_unset env (pieces_of s) = piece_name p" using assms by (simp add: first_unset_def)
  from assms have p: "p \<in> set (pieces_of s)" "piece_unset env p"
    by (auto simp: find_Some_iff)
  from p(2) obtain name where "p = Ref name" by (cases p) auto
  with p(1) pieces_Ref_nonempty show "piece_name p \<noteq> []" by auto
qed

text \<open>Substitution fails exactly when a reference is unset, naming the first such variable;
  otherwise every reference is replaced by its value and the rest is kept.\<close>

lemma substituteEnvVariables_spec:
  "substituteEnvVariables env s =
   (case find (piece_unset env) (pieces_of s) of
      Some p \<Rightarrow> Inl (piece_name p)
    | None \<Rightarrow> Inr (concat (map (piece_value env) (pieces_of s))))"
proof (cases "find (piece_unset env) (pieces_of s)")
  case None
  then show ?thesis by (simp add: substituteEnvVariables_def expand_env_pieces first_unset_def)
next
  case (Some p)
  from first_unset_ref [OF Some] Some show ?thesis
    by (simp add: substituteEnvVariables_def expand_env_pieces)
qed

section \<open>Loading files\<close>

datatype load_error = LoadIO string | MissingEnv string

text \<open>What \<open>LoadFile\<close> takes from the system: patterns, files, and the YAML decoder, which adds
  what a file holds to the configuration read so far.\<close>

record system =
  sys_Glob :: "string \<Rightarrow> string + string list"
  sys_ReadFile :: "string \<Rightarrow> string + string"
  sys_UnmarshalStrict :: "string \<Rightarrow> Config \<Rightarrow> string + Config"
  sys_LookupEnv :: "string \<Rightarrow> string option"

fun load_files :: "system \<Rightarrow> string list \<Rightarrow> Config \<Rightarrow> load_error + Config" where
  "load_files sys [] cfg = Inr cfg"
| "load_files sys (f # files) cfg = (case sys_ReadFile sys f of
       Inl e \<Rightarrow> Inl (LoadIO e)
     | Inr content \<Rightarrow>
         (case sys_UnmarshalStrict sys content cfg of
            Inl e \<Rightarrow> Inl (LoadIO e)
          | Inr cfg' \<Rightarrow> load_files sys files cfg'))"

fun load_paths :: "system \<Rightarrow> string list \<Rightarrow> Config \<Rightarrow> load_error + Config" where
  "load_paths sys [] cfg = Inr cfg"
| "load_paths sys (p # paths) cfg = (case sys_Glob sys p of
       Inl e \<Rightarrow> Inl (LoadIO e)
     | Inr files \<Rightarrow>
         (case load_files sys files cfg of
            Inl e \<Rightarrow> Inl e
          | Inr cfg' \<Rightarrow> load_paths sys paths cfg'))"

text \<open>An empty field is left alone.\<close>

definition expand_field :: "(string \<Rightarrow> string option) \<Rightarrow> string \<Rightarrow> load_error + string" where
  "expand_field env text =
     (if text = [] then Inr text
      else case substituteEnvVariables env text of Inl v \<Rightarrow> Inl (MissingEnv v) | Inr t \<Rightarrow> Inr t)"

definition expand_auth :: "(string \<Rightarrow> string option) \<Rightarrow> Auth \<Rightarrow> load_error + Auth" where
  "expand_auth env a = (case expand_field env (Username a) of
       Inl e \<Rightarrow> Inl e
     | Inr u \<Rightarrow>
         (case expand_field env (Password a) of
            Inl e \<Rightarrow> Inl e
          | Inr pw \<Rightarrow>
              (case expand_field env (PrivPassword a) of
                 Inl e \<Rightarrow> Inl e
               | Inr pp \<Rightarrow> Inr (a\<lparr>Username := u, Password := pw, PrivPassword := pp\<rparr>))))"

fun expand_auths :: "(string \<Rightarrow> string option) \<Rightarrow> (string \<times> Auth option) list
    \<Rightarrow> (load_error + (string \<times> Auth option) list) go" where
  "expand_auths env [] = Inr (Inr [])"
| "expand_auths env ((i, None) # auths) = Inl NilDereference"
| "expand_auths env ((i, Some auth) # auths) = (case expand_auth env auth of
       Inl e \<Rightarrow> Inr (Inl e)
     | Inr auth' \<Rightarrow> bindG (expand_auths env auths) (\<lambda>r. Inr (case r of
         Inl e \<Rightarrow> Inl e
       | Inr auths' \<Rightarrow> Inr ((i, Some auth') # auths'))))"

definition LoadFile :: "system \<Rightarrow> string list \<Rightarrow> bool \<Rightarrow> (load_error + Config) go" where
  "LoadFile sys paths expandEnvVars =
     (case load_paths sys paths \<lparr>Auths = [], Modules = [], config_Version = 0\<rparr> of
        Inl e \<Rightarrow> Inr (Inl e)
      | Inr cfg \<Rightarrow>
          if expandEnvVars then
            bindG (expand_auths (sys_LookupEnv sys) (Auths cfg)) (\<lambda>r. Inr (case r of
              Inl e \<Rightarrow> Inl e
            | Inr auths \<Rightarrow> Inr (cfg\<lparr>Auths := auths\<rparr>)))
          else Inr (Inr cfg))"

text \<open>After loading with expansion, each auth is the one of the files with its three fields
  substituted, every name kept.\<close>

lemma expand_auths_all:
  "expand_auths env auths = Inr (Inr auths') \<Longrightarrow>
   list_all2 (\<lambda>(i, a) (j, b). i = j \<and> (\<exists>x y. a = Some x \<and> b = Some y \<and> expand_auth env x = Inr y))
     auths auths'"
proof (induction env auths arbitrary: auths' rule: expand_auths.induct)
  case (3 env i auth auths)
  from "3.prems" obtain auth' where a: "expand_auth env auth = Inr auth'"
    by (cases "expand_auth env auth") auto
  with "3.prems" obtain r where r: "expand_auths env auths = Inr r"
    and c: "(case r of Inl e \<Rightarrow> Inl e | Inr as \<Rightarrow> Inr ((i, Some auth') # as)) = Inr auths'"
    by auto
  from c obtain as where "r = Inr as" "auths' = (i, Some auth') # as" by (cases r) auto
  with "3.IH" [OF a] r a show ?case by simp
qed simp_all

end
