(* ===== verification/Labels.thy ===== *)
theory Labels
  imports Pdu "HOL-Library.AList"
begin

text \<open>
  \<open>indexesToLabels\<close> of \<open>collector/collector.go\<close>: the labels of a sample, from the index part of
  its OID and from lookups in the other variables of the scrape. The label map is an
  association list with distinct keys; \<open>labelOids\<close> remembers, for each label, the OIDs a later
  lookup appends to its own OID. Shown: the indexes an agent encodes come back as the texts
  they stand for, names stay distinct, and what a lookup adds, replaces or deletes.
\<close>

type_synonym labels = "(string \<times> string) list"
type_synonym label_oids = "string \<Rightarrow> int list option"
type_synonym pdu_map = "string \<Rightarrow> SnmpPDU option"

section \<open>The code\<close>

text \<open>The first loop: one label per index; what is left of the OIDs goes to the next index.\<close>

fun index_labels ::
  "Index list \<Rightarrow> int list \<Rightarrow> labels \<Rightarrow> label_oids \<Rightarrow> (labels \<times> label_oids) go" where
  "index_labels [] indexOids labels labelOids = Inr (labels, labelOids)"
| "index_labels (index # rest) indexOids labels labelOids =
     bindG (indexOidsAsString indexOids (index_Type index) (index_FixedSize index)
              (index_Implied index) (index_EnumValues index))
       (\<lambda>(str, subOid, remainingOids).
          index_labels rest remainingOids
            (AList.update (index_Labelname index) (toValidUTF8 str) labels)
            (labelOids(index_Labelname index \<mapsto> subOid)))"

text \<open>\<open>labelOids[label]\<close> is nil for a label that is not there.\<close>

definition label_oid :: "label_oids \<Rightarrow> string \<Rightarrow> int list" where
  "label_oid labelOids label = (case labelOids label of Some l \<Rightarrow> l | None \<Rightarrow> [])"

text \<open>The OID of a lookup: its column, then the OIDs of its labels.\<close>

definition lookup_key :: "string \<Rightarrow> string list \<Rightarrow> label_oids \<Rightarrow> string" where
  "lookup_key oid ls labelOids =
     foldl (\<lambda>oid label. oid @ ''.'' @ listToOid (label_oid labelOids label)) oid ls"

text \<open>The type of a lookup that the previous object determines.\<close>

definition lookup_type :: "runtime \<Rightarrow> pdu_map \<Rightarrow> Lookup \<Rightarrow> label_oids \<Rightarrow> string go" where
  "lookup_type rt oidToPdu lk labelOids =
     (case map_of combinedTypeMapping (lookup_Type lk) of
        None \<Rightarrow> Inr (lookup_Type lk)
      | Some typeMapping \<Rightarrow>
          (case oidToPdu (lookup_key (getPrevOid (lookup_Oid lk)) (lookup_Labels lk) labelOids) of
             None \<Rightarrow> Inr (lookup_Type lk)
           | Some prevPdu \<Rightarrow>
               bindG (getPduValue rt prevPdu) (\<lambda>v.
                 Inr (case map_of typeMapping (f64_to_int (floatToIntOob rt) v) of
                        Some ty \<Rightarrow> ty
                      | None \<Rightarrow> lookup_Type lk))))"

definition enum_text :: "enum_values \<Rightarrow> int \<Rightarrow> string" where
  "enum_text ev i = (case map_of ev i of Some str \<Rightarrow> str | None \<Rightarrow> itoa i)"

text \<open>The second loop, one lookup: delete the label, fill it from a variable, or leave it empty.\<close>

definition lookup_step :: "runtime \<Rightarrow> pdu_map \<Rightarrow> Lookup
    \<Rightarrow> labels \<times> label_oids \<times> Metrics \<Rightarrow> (labels \<times> label_oids \<times> Metrics) go" where
  "lookup_step rt oidToPdu lk st = (case st of (labels, labelOids, metrics) \<Rightarrow>
     if lookup_Labels lk = [] then Inr (AList.delete (lookup_Labelname lk) labels, labelOids, metrics)
     else (case oidToPdu (lookup_key (lookup_Oid lk) (lookup_Labels lk) labelOids) of
         None \<Rightarrow> Inr (AList.update (lookup_Labelname lk) [] labels, labelOids, metrics)
       | Some pdu \<Rightarrow>
           bindG (lookup_type rt oidToPdu lk labelOids) (\<lambda>t.
             let intVal = bigInt64 (ToBigInt rt (pdu_Value pdu)) in
             bindG (if t = ''EnumAsInfo'' \<and> lookup_EnumValues lk \<noteq> []
                    then Inr (enum_text (lookup_EnumValues lk) intVal, metrics)
                    else pduValueAsString rt pdu t (lookup_DisplayHint lk) metrics)
               (\<lambda>(str, metrics').
                 Inr (AList.update (lookup_Labelname lk) str labels,
                      labelOids(lookup_Labelname lk \<mapsto> [intVal]), metrics')))))"

definition indexesToLabels ::
  "runtime \<Rightarrow> int list \<Rightarrow> Metric \<Rightarrow> pdu_map \<Rightarrow> Metrics \<Rightarrow> (labels \<times> Metrics) go" where
  "indexesToLabels rt indexOids metric oidToPdu metrics =
     bindG (index_labels (metric_Indexes metric) indexOids [] Map.empty)
       (\<lambda>(labels, labelOids).
          bindG (foldG (lookup_step rt oidToPdu) (metric_Lookups metric) (labels, labelOids, metrics))
            (\<lambda>(labels', _, metrics'). Inr (labels', metrics')))"

section \<open>Names stay distinct\<close>

lemma index_labels_distinct:
  "index_labels is oids ls lo = Inr (ls', lo') \<Longrightarrow> distinct (map fst ls) \<Longrightarrow> distinct (map fst ls')"
  by (induction "is" oids ls lo rule: index_labels.induct) (auto simp: distinct_update)

text \<open>What one lookup does to the labels.\<close>

lemma lookup_step_labels:
  assumes "lookup_step rt m lk (ls, lo, mx) = Inr (ls', lo', mx')"
  shows "if lookup_Labels lk = [] then ls' = AList.delete (lookup_Labelname lk) ls
    else \<exists>str. ls' = AList.update (lookup_Labelname lk) str ls"
  using assms
  by (auto simp: lookup_step_def Let_def split: if_splits option.splits prod.splits)

lemma lookup_step_distinct:
  "lookup_step rt m lk (ls, lo, mx) = Inr (ls', lo', mx') \<Longrightarrow>
   distinct (map fst ls) \<Longrightarrow> distinct (map fst ls')"
  by (drule lookup_step_labels) (auto simp: distinct_update distinct_delete split: if_splits)

lemma indexesToLabels_distinct:
  assumes "indexesToLabels rt oids metric m mx = Inr (ls, mx')"
  shows "distinct (map fst ls)"
proof -
  from assms obtain l0 lo0 lo' where
    i: "index_labels (metric_Indexes metric) oids [] Map.empty = Inr (l0, lo0)" and
    f: "foldG (lookup_step rt m) (metric_Lookups metric) (l0, lo0, mx) = Inr (ls, lo', mx')"
    by (auto simp: indexesToLabels_def)
  from i have "distinct (map fst l0)" by (auto dest: index_labels_distinct)
  then have "distinct (map fst (fst (l0, lo0, mx)))" by simp
  with f have "distinct (map fst (fst (ls, lo', mx')))"
    by (rule foldG_invariant [where P = "\<lambda>st. distinct (map fst (fst st))"])
      (auto intro: lookup_step_distinct)
  then show ?thesis by simp
qed

section \<open>Which labels there are\<close>

lemma index_labels_keys:
  "index_labels is oids ls lo = Inr (ls', lo') \<Longrightarrow>
   fst ` set ls' = fst ` set ls \<union> index_Labelname ` set is"
proof (induction "is" arbitrary: oids ls lo)
  case (Cons i "is")
  then obtain str sub rest where
    "index_labels is rest (AList.update (index_Labelname i) (toValidUTF8 str) ls)
       (lo(index_Labelname i \<mapsto> sub)) = Inr (ls', lo')" by auto
  from Cons.IH [OF this] show ?case by (simp add: dom_update)
qed simp

lemma dom_delete_eq: "fst ` set (AList.delete k xs) = fst ` set xs - {k}"
  by (induction xs) auto

text \<open>What one lookup does to the set of names: delete, or make present.\<close>

definition lookup_names :: "Lookup \<Rightarrow> string set \<Rightarrow> string set" where
  "lookup_names lk N =
     (if lookup_Labels lk = [] then N - {lookup_Labelname lk} else insert (lookup_Labelname lk) N)"

lemma lookup_step_keys:
  assumes "lookup_step rt m lk (ls, lo, mx) = Inr (ls', lo', mx')"
  shows "fst ` set ls' = lookup_names lk (fst ` set ls)"
proof (cases "lookup_Labels lk = []")
  case True
  with lookup_step_labels [OF assms] show ?thesis by (simp add: lookup_names_def dom_delete_eq)
next
  case False
  with lookup_step_labels [OF assms] obtain str where
    "ls' = AList.update (lookup_Labelname lk) str ls" by auto
  with False show ?thesis by (simp add: lookup_names_def dom_update)
qed

lemma lookup_steps_keys:
  "foldG (lookup_step rt m) lks (ls, lo, mx) = Inr (ls', lo', mx') \<Longrightarrow>
   fst ` set ls' = fold lookup_names lks (fst ` set ls)"
proof (induction lks arbitrary: ls lo mx)
  case (Cons lk lks)
  then obtain l1 lo1 mx1 where
    "lookup_step rt m lk (ls, lo, mx) = Inr (l1, lo1, mx1)"
    "foldG (lookup_step rt m) lks (l1, lo1, mx1) = Inr (ls', lo', mx')" by auto
  with Cons.IH lookup_step_keys show ?case by simp
qed simp

lemma indexesToLabels_names:
  assumes "indexesToLabels rt oids metric m mx = Inr (ls, mx')"
  shows "fst ` set ls =
    fold lookup_names (metric_Lookups metric) (index_Labelname ` set (metric_Indexes metric))"
proof -
  from assms obtain l0 lo0 lo' where
    i: "index_labels (metric_Indexes metric) oids [] Map.empty = Inr (l0, lo0)" and
    f: "foldG (lookup_step rt m) (metric_Lookups metric) (l0, lo0, mx) = Inr (ls, lo', mx')"
    by (auto simp: indexesToLabels_def)
  from index_labels_keys [OF i] lookup_steps_keys [OF f] show ?thesis by simp
qed

section \<open>Label values are valid UTF-8\<close>

definition labels_valid :: "labels \<Rightarrow> bool" where
  "labels_valid ls \<longleftrightarrow> (\<forall>l \<in> set ls. valid_utf8 (snd l))"

definition lookup_clean :: "Lookup \<Rightarrow> bool" where
  "lookup_clean lk \<longleftrightarrow> (\<forall>e \<in> set (lookup_EnumValues lk). valid_utf8 (snd e))"

lemma labels_valid_update: "labels_valid ls \<Longrightarrow> valid_utf8 v \<Longrightarrow> labels_valid (AList.update k v ls)"
  by (induction ls) (auto simp: labels_valid_def)

lemma labels_valid_delete: "labels_valid ls \<Longrightarrow> labels_valid (AList.delete k ls)"
  by (induction ls) (auto simp: labels_valid_def)

lemma index_labels_valid:
  "index_labels is oids ls lo = Inr (ls', lo') \<Longrightarrow> labels_valid ls \<Longrightarrow> labels_valid ls'"
proof (induction "is" arbitrary: oids ls lo)
  case (Cons i "is")
  then obtain str sub rest where
    "index_labels is rest (AList.update (index_Labelname i) (toValidUTF8 str) ls)
       (lo(index_Labelname i \<mapsto> sub)) = Inr (ls', lo')" by auto
  from Cons.IH [OF this] Cons.prems(2) show ?case by (simp add: labels_valid_update)
qed simp

lemma valid_enum_text:
  "\<forall>e \<in> set ev. valid_utf8 (snd e) \<Longrightarrow> valid_utf8 (enum_text ev i)"
  by (fastforce simp: enum_text_def split: option.split dest: map_of_SomeD)

lemma lookup_step_valid:
  assumes "lookup_step rt m lk (ls, lo, mx) = Inr (ls', lo', mx')"
    and "labels_valid ls" "lookup_clean lk" "formats_ok rt" "\<forall>pdu \<in> ran m. pdu_clean pdu"
  shows "labels_valid ls'"
proof (cases "lookup_Labels lk = []")
  case True
  with lookup_step_labels [OF assms(1)] assms(2) show ?thesis by (simp add: labels_valid_delete)
next
  case False
  show ?thesis
  proof (cases "m (lookup_key (lookup_Oid lk) (lookup_Labels lk) lo)")
    case None
    with False assms(1,2) show ?thesis by (auto simp: lookup_step_def labels_valid_update)
  next
    case (Some pdu)
    then have clean: "pdu_clean pdu" using assms(5) by (auto intro: ranI)
    from Some False assms(1) obtain str where
      ls': "ls' = AList.update (lookup_Labelname lk) str ls" and
      str: "str = enum_text (lookup_EnumValues lk) (bigInt64 (ToBigInt rt (pdu_Value pdu))) \<or>
        (\<exists>t. pduValueAsString rt pdu t (lookup_DisplayHint lk) mx = Inr (str, mx'))"
      by (auto simp: lookup_step_def Let_def split: if_splits)
    have "valid_utf8 str"
      using str clean assms(3,4) pduValueAsString_valid
      by (auto simp: lookup_clean_def intro: valid_enum_text)
    with ls' assms(2) show ?thesis by (simp add: labels_valid_update)
  qed
qed

lemma indexesToLabels_valid:
  assumes "indexesToLabels rt oids metric m mx = Inr (ls, mx')"
    and "\<forall>lk \<in> set (metric_Lookups metric). lookup_clean lk"
    and "formats_ok rt" "\<forall>pdu \<in> ran m. pdu_clean pdu"
  shows "labels_valid ls"
proof -
  from assms(1) obtain l0 lo0 lo' where
    i: "index_labels (metric_Indexes metric) oids [] Map.empty = Inr (l0, lo0)" and
    f: "foldG (lookup_step rt m) (metric_Lookups metric) (l0, lo0, mx) = Inr (ls, lo', mx')"
    by (auto simp: indexesToLabels_def)
  have "labels_valid (fst (l0, lo0, mx))"
    using index_labels_valid [OF i] by (simp add: labels_valid_def)
  with f have "labels_valid (fst (ls, lo', mx'))"
    by (rule foldG_invariant [where P = "\<lambda>st. labels_valid (fst st)"])
      (use assms(2-4) in \<open>auto intro: lookup_step_valid\<close>)
  then show ?thesis by simp
qed

section \<open>Well-encoded indexes come back as their texts\<close>

text \<open>The index entry of a configuration that describes a value.\<close>

definition index_for :: "string \<Rightarrow> enum_values \<Rightarrow> index_value \<Rightarrow> Index" where
  "index_for name ev v = \<lparr>index_Labelname = name, index_Type = index_type_of v,
     index_FixedSize = index_size_of v, index_Implied = False, index_EnumValues = ev\<rparr>"

type_synonym index_spec = "string \<times> enum_values \<times> index_value"

definition spec_indexes :: "index_spec list \<Rightarrow> Index list" where
  "spec_indexes specs = map (\<lambda>(name, ev, v). index_for name ev v) specs"

definition spec_oids :: "index_spec list \<Rightarrow> int list" where
  "spec_oids specs = concat (map (\<lambda>(name, ev, v). index_encode v) specs)"

definition spec_labels :: "index_spec list \<Rightarrow> labels" where
  "spec_labels specs = map (\<lambda>(name, ev, v). (name, toValidUTF8 (index_text ev v))) specs"

lemma update_new_key: "k \<notin> fst ` set xs \<Longrightarrow> AList.update k v xs = xs @ [(k, v)]"
  by (induction xs) auto

lemma index_labels_specs:
  assumes "list_all (\<lambda>(name, ev, v). index_value_ok v) specs" and "distinct (map fst specs)"
    and "fst ` set ls \<inter> fst ` set specs = {}"
  shows "\<exists>lo'. index_labels (spec_indexes specs) (spec_oids specs @ rest) ls lo =
      Inr (ls @ spec_labels specs, lo') \<and>
    (\<forall>(name, ev, v) \<in> set specs. lo' name = Some (index_encode v)) \<and>
    (\<forall>name. name \<notin> fst ` set specs \<longrightarrow> lo' name = lo name)"
  using assms
proof (induction specs arbitrary: ls lo)
  case Nil
  then show ?case by (simp add: spec_indexes_def spec_labels_def)
next
  case (Cons s specs)
  obtain name ev v where s: "s = (name, ev, v)" by (cases s)
  have ok: "index_value_ok v" using Cons.prems(1) s by simp
  have new: "name \<notin> fst ` set ls" using Cons.prems(3) s by auto
  let ?ls = "ls @ [(name, toValidUTF8 (index_text ev v))]"
  let ?lo = "lo(name \<mapsto> index_encode v)"
  have "\<exists>lo'. index_labels (spec_indexes specs) (spec_oids specs @ rest) ?ls ?lo =
      Inr (?ls @ spec_labels specs, lo') \<and>
    (\<forall>(name, ev, v) \<in> set specs. lo' name = Some (index_encode v)) \<and>
    (\<forall>name. name \<notin> fst ` set specs \<longrightarrow> lo' name = ?lo name)"
    using Cons.prems s by (intro Cons.IH) auto
  then obtain lo' where
    l: "index_labels (spec_indexes specs) (spec_oids specs @ rest) ?ls ?lo =
      Inr (?ls @ spec_labels specs, lo')" and
    in_: "\<forall>(name, ev, v) \<in> set specs. lo' name = Some (index_encode v)" and
    out: "\<forall>name. name \<notin> fst ` set specs \<longrightarrow> lo' name = ?lo name" by blast
  have "index_labels (spec_indexes (s # specs)) (spec_oids (s # specs) @ rest) ls lo =
      Inr (ls @ spec_labels (s # specs), lo')"
    using l new index_roundtrip [OF ok, of "spec_oids specs @ rest" ev]
    by (simp add: s spec_indexes_def spec_oids_def spec_labels_def index_for_def update_new_key)
  moreover have "lo' name = Some (index_encode v)" using out Cons.prems(2) s by auto
  ultimately show ?case using in_ out s by auto
qed

end
