(* ===== verification/Samples.thy ===== *)
theory Samples
  imports Labels "HOL-Library.Multiset"
begin

unbundle bit_operations_syntax

text \<open>
  From a variable to Prometheus samples (\<open>pduToSamples\<close>, \<open>applyRegexExtracts\<close>, \<open>enumAsInfo\<close>,
  \<open>enumAsStateSet\<close> and \<open>bits\<close>, \<open>collector/collector.go\<close>). The Prometheus client library is
  outside the repository: whether \<open>NewConstMetric\<close> accepts a description and its label values
  is the field \<open>newConstMetricError\<close> of \<open>runtime\<close>. Strings are copied by \<open>NewConstMetric\<close>, so the
  shared backing array of \<open>append(labelvalues, ...)\<close> is not observable.
\<close>

section \<open>The code\<close>

datatype sample_error =
    NewConstMetricFailed string "string list" string \<comment> \<open>metric, label values, cause\<close>
  | BitsType string "string list"

datatype sample =
    ConstMetric (sample_desc: PromDesc) (sample_type: ValueType) (sample_value: f64)
      (sample_labels: "string list")
  | InvalidMetric PromDesc sample_error

definition snmp_error :: "string \<Rightarrow> PromDesc" where
  "snmp_error h = \<lparr>fqName = ''snmp_error'', descHelp = h, variableLabels = []\<rparr>"

text \<open>\<open>NewConstMetric\<close>, with the invalid metric the callers put in its place on an error.\<close>

definition newConstMetric ::
  "runtime \<Rightarrow> PromDesc \<Rightarrow> ValueType \<Rightarrow> f64 \<Rightarrow> string list \<Rightarrow> string \<Rightarrow> string \<Rightarrow> string list \<Rightarrow> sample" where
  "newConstMetric rt d t v labelvalues errHelp errName errLabels =
     (case newConstMetricError rt d t v labelvalues of
        None \<Rightarrow> ConstMetric d t v labelvalues
      | Some e \<Rightarrow> InvalidMetric (snmp_error errHelp) (NewConstMetricFailed errName errLabels e))"

definition f64_one :: f64 where
  "f64_one = Num 1 0"

text \<open>\<open>value *= Scale\<close> unless the scale is zero, then \<open>value += Offset\<close>.\<close>

definition scaled :: "Metric \<Rightarrow> f64 \<Rightarrow> f64" where
  "scaled metric v =
     (let v' = (if f64_is_zero (metric_Scale metric) then v else f64_mult v (metric_Scale metric))
      in f64_add v' (metric_Offset metric))"

text \<open>The inner loop of \<open>applyRegexExtracts\<close>: the first expression that matches and parses.\<close>

fun regex_value :: "runtime \<Rightarrow> RegexpExtract list \<Rightarrow> string \<Rightarrow> f64 option go" where
  "regex_value rt [] pduValue = Inr None"
| "regex_value rt (strMetric # rest) pduValue =
     (case extract_Regex strMetric of
        None \<Rightarrow> Inl NilDereference
      | Some re \<Rightarrow>
          (case expandMatch rt re (extract_Value strMetric) pduValue of
             None \<Rightarrow> regex_value rt rest pduValue
           | Some res \<Rightarrow>
               (case parseFloat rt res of
                  None \<Rightarrow> regex_value rt rest pduValue
                | Some v \<Rightarrow> Inr (Some v))))"

text \<open>The outer loop's body: at most one sample for each name.\<close>

definition extract_samples ::
  "runtime \<Rightarrow> Metric \<Rightarrow> string \<Rightarrow> string list \<Rightarrow> string list
    \<Rightarrow> string \<times> RegexpExtract list \<Rightarrow> sample list go" where
  "extract_samples rt metric pduValue labelnames labelvalues e = (case e of (name, strMetricSlice) \<Rightarrow>
     bindG (regex_value rt strMetricSlice pduValue) (\<lambda>r.
       Inr (case r of
           None \<Rightarrow> []
         | Some v \<Rightarrow> [newConstMetric rt
             \<lparr>fqName = metric_Name metric @ name,
              descHelp = metric_Help metric @ '' (regex extracted)'', variableLabels = labelnames\<rparr>
             GaugeValue (scaled metric v) labelvalues
             ''Error calling NewConstMetric for regex_extract'' (metric_Name metric @ name) labelvalues])))"

definition applyRegexExtracts ::
  "runtime \<Rightarrow> Metric \<Rightarrow> string \<Rightarrow> string list \<Rightarrow> string list \<Rightarrow> sample list go" where
  "applyRegexExtracts rt metric pduValue labelnames labelvalues =
     bindG (mapG (extract_samples rt metric pduValue labelnames labelvalues)
       (metric_RegexpExtracts metric)) (\<lambda>rs. Inr (concat rs))"

definition enumAsInfo ::
  "runtime \<Rightarrow> Metric \<Rightarrow> int \<Rightarrow> string list \<Rightarrow> string list \<Rightarrow> sample list" where
  "enumAsInfo rt metric value labelnames labelvalues =
     (let state = enum_text (metric_EnumValues metric) value in
      if metric_Name metric \<in> set labelnames then []
      else let ns = labelnames @ [metric_Name metric]; vs = labelvalues @ [state] in
        [newConstMetric rt
           \<lparr>fqName = metric_Name metric @ ''_info'',
            descHelp = metric_Help metric @ '' (EnumAsInfo)'', variableLabels = ns\<rparr>
           GaugeValue f64_one vs
           ''Error calling NewConstMetric for EnumAsInfo'' (metric_Name metric) vs])"

definition state_sample ::
  "runtime \<Rightarrow> Metric \<Rightarrow> string list \<Rightarrow> string list \<Rightarrow> f64 \<Rightarrow> string \<Rightarrow> sample" where
  "state_sample rt metric labelnames labelvalues v state =
     newConstMetric rt
       \<lparr>fqName = metric_Name metric, descHelp = metric_Help metric @ '' (EnumAsStateSet)'',
        variableLabels = labelnames\<rparr>
       GaugeValue v (labelvalues @ [state])
       ''Error calling NewConstMetric for EnumAsStateSet'' (metric_Name metric) labelvalues"

definition enumAsStateSet ::
  "runtime \<Rightarrow> Metric \<Rightarrow> int \<Rightarrow> string list \<Rightarrow> string list \<Rightarrow> sample list" where
  "enumAsStateSet rt metric value labelnames labelvalues =
     (let ns = labelnames @ [metric_Name metric];
          state = enum_text (metric_EnumValues metric) value
      in state_sample rt metric ns labelvalues f64_one state
         # map (\<lambda>(k, v). state_sample rt metric ns labelvalues f64_zero v)
             (filter (\<lambda>(k, v). k \<noteq> value) (metric_EnumValues metric)))"

text \<open>
  The bit of an enumeration key: \<open>bytes[k/8] & (128 >> (k % 8))\<close>, the test \<open>k < len(bytes)*8\<close>
  letting negative keys through to an index or a shift that panics.
\<close>

definition bit_of :: "bytes \<Rightarrow> int \<Rightarrow> bool go" where
  "bit_of bs k =
     (if int (length bs) * 8 \<le> k then Inr False
      else if k < 0 then (if k \<le> - 8 \<or> bs = [] then Inl IndexOutOfRange else Inl NegativeShift)
      else Inr (bs ! nat (k div 8) AND drop_bit (nat (k mod 8)) 128 \<noteq> 0))"

definition bit_sample ::
  "runtime \<Rightarrow> Metric \<Rightarrow> bytes \<Rightarrow> string list \<Rightarrow> string list \<Rightarrow> int \<times> string \<Rightarrow> sample go" where
  "bit_sample rt metric bs labelnames labelvalues e = (case e of (k, v) \<Rightarrow>
     bindG (bit_of bs k) (\<lambda>b. Inr (newConstMetric rt
       \<lparr>fqName = metric_Name metric, descHelp = metric_Help metric @ '' (Bits)'',
        variableLabels = labelnames @ [metric_Name metric]\<rparr>
       GaugeValue (if b then f64_one else f64_zero) (labelvalues @ [v])
       ''Error calling NewConstMetric for Bits'' (metric_Name metric) labelvalues)))"

definition bits_metric ::
  "runtime \<Rightarrow> Metric \<Rightarrow> goval \<Rightarrow> string list \<Rightarrow> string list \<Rightarrow> sample list go" where
  "bits_metric rt metric value labelnames labelvalues =
     (case value of
        GBytes bs \<Rightarrow>
          mapG (bit_sample rt metric bs labelnames labelvalues) (metric_EnumValues metric)
      | _ \<Rightarrow> Inr [InvalidMetric (snmp_error ''BITS type was not a BISTRING on the wire.'')
               (BitsType (metric_Name metric) labelvalues)])"

text \<open>The sample of a number, at the end of \<open>pduToSamples\<close>.\<close>

definition number_sample ::
  "runtime \<Rightarrow> Metric \<Rightarrow> ValueType \<Rightarrow> f64 \<Rightarrow> string list \<Rightarrow> string list \<Rightarrow> sample list" where
  "number_sample rt metric t v labelnames labelvalues =
     [newConstMetric rt
        \<lparr>fqName = metric_Name metric, descHelp = metric_Help metric, variableLabels = labelnames\<rparr>
        t (scaled metric v) labelvalues
        ''Error calling NewConstMetric'' (metric_Name metric) labelvalues]"

text \<open>The type of a string metric that the previous object of the same index determines.\<close>

definition string_type :: "runtime \<Rightarrow> int list \<Rightarrow> Metric \<Rightarrow> pdu_map \<Rightarrow> string go" where
  "string_type rt indexOids metric oidToPdu =
     (case map_of combinedTypeMapping (metric_Type metric) of
        None \<Rightarrow> Inr (metric_Type metric)
      | Some typeMapping \<Rightarrow>
          (case oidToPdu (getPrevOid (metric_Oid metric) @ ''.'' @ listToOid indexOids) of
             None \<Rightarrow> Inr ''OctetString''
           | Some prevPdu \<Rightarrow>
               bindG (getPduValue rt prevPdu) (\<lambda>v.
                 Inr (case map_of typeMapping (f64_to_int (floatToIntOob rt) v) of
                        Some t \<Rightarrow> t
                      | None \<Rightarrow> ''OctetString''))))"

text \<open>The default branch: some form of string.\<close>

definition string_samples ::
  "runtime \<Rightarrow> int list \<Rightarrow> SnmpPDU \<Rightarrow> Metric \<Rightarrow> pdu_map \<Rightarrow> labels \<Rightarrow> string list \<Rightarrow> string list
    \<Rightarrow> Metrics \<Rightarrow> (sample list \<times> Metrics) go" where
  "string_samples rt indexOids pdu metric oidToPdu labels labelnames labelvalues metrics =
     bindG (string_type rt indexOids metric oidToPdu) (\<lambda>metricType.
       if metric_RegexpExtracts metric \<noteq> [] then
         bindG (pduValueAsString rt pdu metricType (metric_DisplayHint metric) metrics) (\<lambda>(s, metrics').
           bindG (applyRegexExtracts rt metric s labelnames labelvalues) (\<lambda>ss. Inr (ss, metrics')))
       else if map_of labels (metric_Name metric) = None then
         bindG (pduValueAsString rt pdu metricType (metric_DisplayHint metric) metrics) (\<lambda>(s, metrics').
           Inr (number_sample rt metric GaugeValue f64_one
                  (labelnames @ [metric_Name metric]) (labelvalues @ [s]), metrics'))
       else Inr (number_sample rt metric GaugeValue f64_one labelnames labelvalues, metrics))"

text \<open>A date: no sample when it does not parse.\<close>

definition date_samples ::
  "runtime \<Rightarrow> Metric \<Rightarrow> date_error + f64 \<Rightarrow> string list \<Rightarrow> string list \<Rightarrow> sample list" where
  "date_samples rt metric r labelnames labelvalues =
     (case r of Inl _ \<Rightarrow> [] | Inr v \<Rightarrow> number_sample rt metric GaugeValue v labelnames labelvalues)"

definition pduToSamples ::
  "runtime \<Rightarrow> int list \<Rightarrow> SnmpPDU \<Rightarrow> Metric \<Rightarrow> pdu_map \<Rightarrow> Metrics \<Rightarrow> (sample list \<times> Metrics) go" where
  "pduToSamples rt indexOids pdu metric oidToPdu metrics0 =
     bindG (indexesToLabels rt indexOids metric oidToPdu metrics0) (\<lambda>(labels, metrics).
     bindG (getPduValue rt pdu) (\<lambda>value.
       let ls = rangeLabels rt labels; ns = map fst ls; vs = map snd ls;
           ty = metric_Type metric; intValue = f64_to_int (floatToIntOob rt) value in
       if ty = ''counter'' then Inr (number_sample rt metric CounterValue value ns vs, metrics)
       else if ty = ''gauge'' \<or> ty = ''Float'' \<or> ty = ''Double''
         then Inr (number_sample rt metric GaugeValue value ns vs, metrics)
       else if ty = ''DateAndTime'' then Inr (date_samples rt metric (parseDateAndTime pdu) ns vs, metrics)
       else if ty = ''ParseDateAndTime'' then
         bindG (parseDateAndTimeWithPattern rt metric pdu metrics) (\<lambda>(r, metrics').
           Inr (date_samples rt metric r ns vs, metrics'))
       else if ty = ''NTPTimeStamp'' then Inr (date_samples rt metric (parseNtpTimestamp pdu) ns vs, metrics)
       else if ty = ''EnumAsInfo'' then Inr (enumAsInfo rt metric intValue ns vs, metrics)
       else if ty = ''EnumAsStateSet'' then Inr (enumAsStateSet rt metric intValue ns vs, metrics)
       else if ty = ''Bits'' then
         bindG (bits_metric rt metric (pdu_Value pdu) ns vs) (\<lambda>ss. Inr (ss, metrics))
       else string_samples rt indexOids pdu metric oidToPdu labels ns vs metrics))"


section \<open>Bits\<close>

text \<open>Bit \<open>k\<close> of a BITS value, counted from the most significant bit of the first byte.\<close>

definition snmp_bit :: "bytes \<Rightarrow> nat \<Rightarrow> bool" where
  "snmp_bit bs k \<longleftrightarrow> k < 8 * length bs \<and> bit (bs ! (k div 8)) (7 - k mod 8)"

lemma mask_bit:
  assumes "j < 8"
  shows "(b :: 8 word) AND drop_bit j 128 \<noteq> 0 \<longleftrightarrow> bit b (7 - j)"
proof -
  have "drop_bit j (128 :: 8 word) = push_bit (7 - j) 1"
  proof (rule bit_word_eqI)
    fix n :: nat
    assume "n < LENGTH(8)"
    have "(128 :: 8 word) = push_bit 7 1" by simp
    moreover have "bit (drop_bit j (push_bit 7 (1 :: 8 word))) n \<longleftrightarrow> bit (push_bit (7 - j) (1 :: 8 word)) n"
      unfolding bit_drop_bit_eq bit_push_bit_iff bit_1_iff o_def
      using assms \<open>n < LENGTH(8)\<close> by (auto simp: possible_bit_word)
    ultimately show "bit (drop_bit j (128 :: 8 word)) n \<longleftrightarrow> bit (push_bit (7 - j) (1 :: 8 word)) n"
      by simp
  qed
  then show ?thesis by (simp add: bit_iff_and_push_bit_not_eq_0)
qed

lemma bit_of_nat: "bit_of bs (int k) = Inr (snmp_bit bs k)"
proof -
  have "nat (int k div 8) = k div 8" "nat (int k mod 8) = k mod 8"
    by (simp_all add: nat_div_distrib nat_mod_distrib)
  then show ?thesis by (auto simp: bit_of_def snmp_bit_def mask_bit)
qed

lemma bit_of_negative: "k < 0 \<Longrightarrow> \<exists>p. bit_of bs k = Inl p"
  by (auto simp: bit_of_def)

section \<open>What the client library accepts\<close>

text \<open>
  \<open>NewConstMetric\<close> reports an error exactly when a name of the description is not valid, two
  labels have the same name, the numbers of names and values differ, or a value is not UTF-8.
  Which names are valid is left open (\<open>okName\<close> for metrics, \<open>okLabel\<close> for labels).
\<close>

definition prom_ok :: "runtime \<Rightarrow> (string \<Rightarrow> bool) \<Rightarrow> (string \<Rightarrow> bool) \<Rightarrow> bool" where
  "prom_ok rt okName okLabel \<longleftrightarrow> (\<forall>d t v ls. newConstMetricError rt d t v ls = None \<longleftrightarrow>
     okName (fqName d) \<and> list_all okLabel (variableLabels d) \<and> distinct (variableLabels d) \<and>
     length (variableLabels d) = length ls \<and> list_all valid_utf8 ls)"

fun is_const :: "sample \<Rightarrow> bool" where
  "is_const (ConstMetric d t v ls) \<longleftrightarrow> True"
| "is_const (InvalidMetric d e) \<longleftrightarrow> False"

lemma newConstMetric_accepts:
  assumes "prom_ok rt okName okLabel" "okName (fqName d)" "list_all okLabel (variableLabels d)"
    "distinct (variableLabels d)" "length (variableLabels d) = length ls" "list_all valid_utf8 ls"
  shows "newConstMetric rt d t v ls eh en el = ConstMetric d t v ls"
proof -
  have "newConstMetricError rt d t v ls = None"
    using assms(1) unfolding prom_ok_def using assms(2-6) by blast
  then show ?thesis by (simp add: newConstMetric_def)
qed

lemma newConstMetric_rejects:
  assumes "prom_ok rt okName okLabel" "\<not> distinct (variableLabels d)"
  shows "\<not> is_const (newConstMetric rt d t v ls eh en el)"
proof -
  have "newConstMetricError rt d t v ls \<noteq> None"
    using assms unfolding prom_ok_def by blast
  then show ?thesis by (auto simp: newConstMetric_def)
qed

text \<open>The label names and values a sample is built from, when they are good for the client.\<close>

definition good_labels :: "(string \<Rightarrow> bool) \<Rightarrow> string list \<Rightarrow> string list \<Rightarrow> bool" where
  "good_labels okLabel ns vs \<longleftrightarrow> list_all okLabel ns \<and> distinct ns \<and> length ns = length vs
     \<and> list_all valid_utf8 vs"

lemma good_labels_snoc:
  "good_labels okLabel ns vs \<Longrightarrow> okLabel n \<Longrightarrow> n \<notin> set ns \<Longrightarrow> valid_utf8 v \<Longrightarrow>
   good_labels okLabel (ns @ [n]) (vs @ [v])"
  by (simp add: good_labels_def)

lemma newConstMetric_good:
  assumes "prom_ok rt okName okLabel" "okName (fqName d)" "good_labels okLabel (variableLabels d) vs"
  shows "newConstMetric rt d t v vs eh en el = ConstMetric d t v vs"
  using assms unfolding good_labels_def by (blast intro: newConstMetric_accepts)

lemma number_sample_good:
  assumes "prom_ok rt okName okLabel" "okName (metric_Name metric)" "good_labels okLabel ns vs"
  shows "number_sample rt metric t v ns vs = [ConstMetric \<lparr>fqName = metric_Name metric,
    descHelp = metric_Help metric, variableLabels = ns\<rparr> t (scaled metric v) vs]"
  using assms by (simp add: number_sample_def newConstMetric_good)


section \<open>Enumerations\<close>

text \<open>The texts of a metric's enumeration are valid UTF-8, as a parsed YAML file makes them.\<close>

definition enum_clean :: "enum_values \<Rightarrow> bool" where
  "enum_clean ev \<longleftrightarrow> (\<forall>e \<in> set ev. valid_utf8 (snd e))"

lemma enum_clean_text: "enum_clean ev \<Longrightarrow> valid_utf8 (enum_text ev i)"
  by (simp add: enum_clean_def valid_enum_text)

lemma enumAsInfo_good:
  assumes "prom_ok rt okName okLabel" "okName (metric_Name metric @ ''_info'')"
    "okLabel (metric_Name metric)" "good_labels okLabel ns vs" "metric_Name metric \<notin> set ns"
    "enum_clean (metric_EnumValues metric)"
  shows "enumAsInfo rt metric value ns vs =
    [ConstMetric \<lparr>fqName = metric_Name metric @ ''_info'',
       descHelp = metric_Help metric @ '' (EnumAsInfo)'', variableLabels = ns @ [metric_Name metric]\<rparr>
     GaugeValue f64_one (vs @ [enum_text (metric_EnumValues metric) value])]"
  using assms
  by (simp add: enumAsInfo_def Let_def newConstMetric_good good_labels_snoc enum_clean_text)

text \<open>One sample of a state set.\<close>

definition state_const :: "string \<Rightarrow> Metric \<Rightarrow> string list \<Rightarrow> string list \<Rightarrow> f64 \<Rightarrow> string \<Rightarrow> sample" where
  "state_const suffix metric ns vs v state = ConstMetric \<lparr>fqName = metric_Name metric,
     descHelp = metric_Help metric @ suffix, variableLabels = ns @ [metric_Name metric]\<rparr>
     GaugeValue v (vs @ [state])"

lemma state_const_sel [simp]:
  "is_const (state_const h metric ns vs v state)"
  "sample_value (state_const h metric ns vs v state) = v"
  "sample_labels (state_const h metric ns vs v state) = vs @ [state]"
  by (simp_all add: state_const_def)

lemma state_sample_good:
  assumes "prom_ok rt okName okLabel" "okName (metric_Name metric)" "okLabel (metric_Name metric)"
    "good_labels okLabel ns vs" "metric_Name metric \<notin> set ns" "valid_utf8 state"
  shows "state_sample rt metric (ns @ [metric_Name metric]) vs v state =
    state_const '' (EnumAsStateSet)'' metric ns vs v state"
  using assms
  by (simp add: state_sample_def state_const_def newConstMetric_good good_labels_snoc)

lemma enumAsStateSet_good:
  assumes "prom_ok rt okName okLabel" "okName (metric_Name metric)" "okLabel (metric_Name metric)"
    "good_labels okLabel ns vs" "metric_Name metric \<notin> set ns"
    "enum_clean (metric_EnumValues metric)"
  shows "enumAsStateSet rt metric value ns vs =
    map (\<lambda>(st, v). state_const '' (EnumAsStateSet)'' metric ns vs v st)
      ((enum_text (metric_EnumValues metric) value, f64_one)
       # map (\<lambda>(k, t). (t, f64_zero)) (filter (\<lambda>(k, t). k \<noteq> value) (metric_EnumValues metric)))"
proof -
  note * = state_sample_good [OF assms(1-5)]
  have "valid_utf8 t" if "(k, t) \<in> set (metric_EnumValues metric)" for k t
    using that assms(6) by (auto simp: enum_clean_def)
  then show ?thesis
    using assms(6) by (auto simp: enumAsStateSet_def Let_def * enum_clean_text)
qed

text \<open>The states of a set: each key of the enumeration, and the value itself if it is no key.\<close>

definition state_values :: "enum_values \<Rightarrow> int \<Rightarrow> (string \<times> f64) multiset" where
  "state_values ev value =
     image_mset (\<lambda>(k, t). (t, if k = value then f64_one else f64_zero)) (mset ev)
     + (if value \<in> fst ` set ev then {#} else {#(itoa value, f64_one)#})"

lemma filter_key_split:
  "distinct (map fst ev) \<Longrightarrow> (value, t) \<in> set ev \<Longrightarrow>
   mset ev = add_mset (value, t) (mset (filter (\<lambda>(k, t). k \<noteq> value) ev))"
proof (induction ev)
  case (Cons e ev)
  show ?case
  proof (cases "fst e = value")
    case True
    with Cons.prems have "e = (value, t)" "\<forall>x \<in> set ev. fst x \<noteq> value"
      by (auto simp: image_iff)
    moreover from this(2) have "filter (\<lambda>(k, t). k \<noteq> value) ev = ev"
      by (auto simp: filter_id_conv)
    ultimately show ?thesis by (simp del: mset_filter)
  next
    case False
    with Cons show ?thesis by (auto split: prod.splits)
  qed
qed simp

lemma image_key_zero:
  "image_mset (\<lambda>(k, t). (t, if k = value then a else b)) (mset (filter (\<lambda>(k, t). k \<noteq> value) ev))
   = mset (map (\<lambda>(k, t). (t, b)) (filter (\<lambda>(k, t). k \<noteq> value) ev))"
  by (induction ev) auto

lemma state_values_eq:
  assumes "distinct (map fst ev)"
  shows "mset ((enum_text ev value, f64_one)
      # map (\<lambda>(k, t). (t, f64_zero)) (filter (\<lambda>(k, t). k \<noteq> value) ev)) = state_values ev value"
proof (cases "value \<in> fst ` set ev")
  case True
  then obtain t where t: "(value, t) \<in> set ev" by auto
  with assms have "enum_text ev value = t" by (simp add: enum_text_def)
  moreover have "state_values ev value = add_mset (t, f64_one)
      (mset (map (\<lambda>(k, t). (t, f64_zero)) (filter (\<lambda>(k, t). k \<noteq> value) ev)))"
  proof -
    let ?f = "\<lambda>(k, t). (t, if k = value then f64_one else f64_zero)"
    have "state_values ev value = image_mset ?f (mset ev)"
      using True by (simp add: state_values_def)
    also have "\<dots> = add_mset (t, f64_one) (image_mset ?f (mset (filter (\<lambda>(k, t). k \<noteq> value) ev)))"
      by (subst filter_key_split [OF assms t]) (simp del: mset_filter)
    finally show ?thesis unfolding image_key_zero .
  qed
  ultimately show ?thesis by simp
next
  case False
  then have "map_of ev value = None" by (simp add: map_of_eq_None_iff)
  moreover from False have "filter (\<lambda>(k, t). k \<noteq> value) ev = ev"
    by (auto simp: filter_id_conv image_iff)
  moreover from this have "image_mset (\<lambda>(k, t). (t, if k = value then f64_one else f64_zero)) (mset ev)
      = mset (map (\<lambda>(k, t). (t, f64_zero)) ev)"
    using image_key_zero [of "value" f64_one f64_zero ev] by simp
  ultimately show ?thesis using False by (simp add: state_values_def enum_text_def)
qed


section \<open>Every sample is one the client accepts\<close>

text \<open>A loop that collects results: each comes from one element, in order.\<close>

lemma mapG_member: "mapG f xs = Inr ys \<Longrightarrow> y \<in> set ys \<Longrightarrow> \<exists>x \<in> set xs. f x = Inr y"
  by (induction xs arbitrary: ys) auto

lemma mapG_Inr_all:
  assumes "mapG f xs = Inr ys" and "\<And>x y. x \<in> set xs \<Longrightarrow> f x = Inr y \<Longrightarrow> P y"
  shows "\<forall>y \<in> set ys. P y"
  using mapG_member [OF assms(1)] assms(2) by blast

definition names_ok :: "(string \<Rightarrow> bool) \<Rightarrow> (string \<Rightarrow> bool) \<Rightarrow> Metric \<Rightarrow> bool" where
  "names_ok okName okLabel metric \<longleftrightarrow>
     okName (metric_Name metric) \<and> okName (metric_Name metric @ ''_info'') \<and>
     okLabel (metric_Name metric) \<and>
     (\<forall>e \<in> set (metric_RegexpExtracts metric). okName (metric_Name metric @ fst e)) \<and>
     (\<forall>i \<in> set (metric_Indexes metric). okLabel (index_Labelname i)) \<and>
     (\<forall>l \<in> set (metric_Lookups metric). okLabel (lookup_Labelname l))"

text \<open>The names of the labels a metric gets from its indexes and lookups.\<close>

definition label_names :: "Metric \<Rightarrow> string set" where
  "label_names metric =
     fold lookup_names (metric_Lookups metric) (index_Labelname ` set (metric_Indexes metric))"

lemma lookup_names_ok:
  "\<forall>l \<in> set lks. okLabel (lookup_Labelname l) \<Longrightarrow> \<forall>n \<in> N. okLabel n \<Longrightarrow>
   \<forall>n \<in> fold lookup_names lks N. okLabel n"
proof (induction lks arbitrary: N)
  case (Cons l lks)
  then have "\<forall>n \<in> lookup_names l N. okLabel n" by (simp add: lookup_names_def)
  with Cons show ?case by simp
qed simp

lemma label_names_ok: "names_ok okName okLabel metric \<Longrightarrow> \<forall>n \<in> label_names metric. okLabel n"
  unfolding label_names_def names_ok_def by (intro lookup_names_ok) auto

lemma indexesToLabels_good:
  assumes "indexesToLabels rt oids metric m mx = Inr (ls, mx')"
    and "range_ok rt" "formats_ok rt" "\<forall>pdu \<in> ran m. pdu_clean pdu"
    and "\<forall>lk \<in> set (metric_Lookups metric). lookup_clean lk"
    and "names_ok okName okLabel metric"
  shows "good_labels okLabel (map fst (rangeLabels rt ls)) (map snd (rangeLabels rt ls)) \<and>
    set (map fst (rangeLabels rt ls)) = label_names metric \<and> fst ` set ls = label_names metric"
proof -
  note dist = indexesToLabels_distinct [OF assms(1)]
  have r: "distinct (rangeLabels rt ls)" "set (rangeLabels rt ls) = set ls"
    using assms(2) dist by (auto simp: range_ok_def)
  have names: "fst ` set ls = label_names metric"
    using indexesToLabels_names [OF assms(1)] by (simp add: label_names_def)
  have valid: "labels_valid ls" by (rule indexesToLabels_valid [OF assms(1,5,3,4)])
  have "distinct (map fst (rangeLabels rt ls))"
    using r dist by (simp add: distinct_map)
  moreover have "list_all okLabel (map fst (rangeLabels rt ls))"
    using names label_names_ok [OF assms(6)] r(2) by (auto simp: list_all_iff)
  moreover have "list_all valid_utf8 (map snd (rangeLabels rt ls))"
    using valid r(2) by (auto simp: labels_valid_def list_all_iff)
  ultimately show ?thesis using names r(2) by (simp add: good_labels_def)
qed

lemma extract_samples_const:
  assumes "extract_samples rt metric s ns vs e = Inr r" "e \<in> set (metric_RegexpExtracts metric)"
    and "prom_ok rt okName okLabel" "names_ok okName okLabel metric" "good_labels okLabel ns vs"
  shows "\<forall>x \<in> set r. is_const x"
proof -
  have "okName (metric_Name metric @ fst e)" using assms(2,4) by (simp add: names_ok_def)
  with assms(1,3,5) show ?thesis
    by (auto simp: extract_samples_def newConstMetric_good split: option.splits prod.splits)
qed

lemma applyRegexExtracts_const:
  assumes "applyRegexExtracts rt metric s ns vs = Inr ss"
    and "prom_ok rt okName okLabel" "names_ok okName okLabel metric" "good_labels okLabel ns vs"
  shows "\<forall>x \<in> set ss. is_const x"
proof -
  from assms(1) obtain rs where
    rs: "mapG (extract_samples rt metric s ns vs) (metric_RegexpExtracts metric) = Inr rs"
    and ss: "ss = concat rs"
    by (auto simp: applyRegexExtracts_def)
  have "\<forall>r \<in> set rs. \<forall>x \<in> set r. is_const x"
    using rs by (rule mapG_Inr_all) (rule extract_samples_const [OF _ _ assms(2-4)])
  with ss show ?thesis by auto
qed

lemma bit_sample_good:
  assumes "prom_ok rt okName okLabel" "names_ok okName okLabel metric" "good_labels okLabel ns vs"
    and "metric_Name metric \<notin> set ns" "valid_utf8 t"
  shows "bit_sample rt metric bs ns vs (k, t) = bindG (bit_of bs k) (\<lambda>b.
    Inr (state_const '' (Bits)'' metric ns vs (if b then f64_one else f64_zero) t))"
proof -
  have "good_labels okLabel (ns @ [metric_Name metric]) (vs @ [t])"
    using assms(2-5) by (intro good_labels_snoc) (auto simp: names_ok_def)
  with assms(1,2) show ?thesis
    by (simp add: bit_sample_def state_const_def newConstMetric_good names_ok_def)
qed

lemma bits_metric_good:
  assumes "prom_ok rt okName okLabel" "names_ok okName okLabel metric" "good_labels okLabel ns vs"
    and "metric_Name metric \<notin> set ns" "enum_clean (metric_EnumValues metric)"
  shows "bits_metric rt metric (GBytes bs) ns vs =
    mapG (\<lambda>(k, t). bindG (bit_of bs k) (\<lambda>b.
        Inr (state_const '' (Bits)'' metric ns vs (if b then f64_one else f64_zero) t)))
      (metric_EnumValues metric)"
proof -
  have "mapG (bit_sample rt metric bs ns vs) es = mapG (\<lambda>(k, t). bindG (bit_of bs k) (\<lambda>b.
        Inr (state_const '' (Bits)'' metric ns vs (if b then f64_one else f64_zero) t))) es"
    if "enum_clean es" for es
    using that
  proof (induction es)
    case (Cons e es)
    obtain k t where e: "e = (k, t)" by (cases e)
    with Cons.prems have "valid_utf8 t" by (simp add: enum_clean_def)
    from bit_sample_good [OF assms(1-4) this] Cons show ?case
      by (simp add: e enum_clean_def)
  qed simp
  with assms(5) show ?thesis by (simp add: bits_metric_def)
qed

lemma mapG_bits:
  assumes "\<forall>e \<in> set es. 0 \<le> fst e"
  shows "mapG (\<lambda>(k, t). bindG (bit_of bs k) (\<lambda>b. Inr (f b t))) es =
    Inr (map (\<lambda>(k, t). f (snmp_bit bs (nat k)) t) es)"
  using assms
proof (induction es)
  case (Cons e es)
  obtain k t where e: "e = (k, t)" by (cases e)
  with Cons.prems have "bit_of bs k = Inr (snmp_bit bs (nat k))"
    using bit_of_nat [of bs "nat k"] by simp
  with Cons show ?case by (simp add: e)
qed simp


lemma bits_metric_const:
  assumes "bits_metric rt metric (GBytes bs) ns vs = Inr ss"
    and "prom_ok rt okName okLabel" "names_ok okName okLabel metric" "good_labels okLabel ns vs"
    and "metric_Name metric \<notin> set ns" "enum_clean (metric_EnumValues metric)"
  shows "\<forall>x \<in> set ss. is_const x"
  using assms(1) unfolding bits_metric_good [OF assms(2-6)]
  by (rule mapG_Inr_all) auto

lemma date_samples_const:
  assumes "prom_ok rt okName okLabel" "names_ok okName okLabel metric" "good_labels okLabel ns vs"
  shows "\<forall>x \<in> set (date_samples rt metric r ns vs). is_const x"
  using assms
  by (auto simp: date_samples_def names_ok_def number_sample_good split: sum.splits)

lemma string_samples_const:
  assumes "string_samples rt oids pdu metric m ls ns vs mx = Inr (ss, mx')"
    and ok: "prom_ok rt okName okLabel" "names_ok okName okLabel metric" "good_labels okLabel ns vs"
    and "set ns = fst ` set ls" "pdu_clean pdu" "formats_ok rt"
  shows "\<forall>x \<in> set ss. is_const x"
proof -
  from assms(1) obtain t where t: "string_type rt oids metric m = Inr t"
    by (auto simp: string_samples_def)
  have name: "okName (metric_Name metric)" "okLabel (metric_Name metric)"
    using ok(2) by (simp_all add: names_ok_def)
  show ?thesis
  proof (cases "metric_RegexpExtracts metric = []")
    case False
    with t assms(1) obtain s where "applyRegexExtracts rt metric s ns vs = Inr ss"
      by (auto simp: string_samples_def)
    from applyRegexExtracts_const [OF this ok] show ?thesis .
  next
    case True
    show ?thesis
    proof (cases "map_of ls (metric_Name metric) = None")
      case new: True
      with True t assms(1) obtain s where
        s: "pduValueAsString rt pdu t (metric_DisplayHint metric) mx = Inr (s, mx')" and
        ss: "ss = number_sample rt metric GaugeValue f64_one (ns @ [metric_Name metric]) (vs @ [s])"
        by (auto simp: string_samples_def)
      have "metric_Name metric \<notin> set ns" using new assms(5) by (simp add: map_of_eq_None_iff)
      with pduValueAsString_valid [OF s assms(6,7)]
      have "good_labels okLabel (ns @ [metric_Name metric]) (vs @ [s])"
        by (intro good_labels_snoc [OF ok(3) name(2)])
      from number_sample_good [OF ok(1) name(1) this] show ?thesis by (simp add: ss)
    next
      case False
      with True t assms(1) have "ss = number_sample rt metric GaugeValue f64_one ns vs"
        by (auto simp: string_samples_def)
      with number_sample_good [OF ok(1) name(1) ok(3)] show ?thesis by simp
    qed
  qed
qed

text \<open>
  A metric whose types, texts and names are in order gives only samples that Prometheus takes,
  whatever the device answers.
\<close>

definition metric_ok :: "(string \<Rightarrow> bool) \<Rightarrow> (string \<Rightarrow> bool) \<Rightarrow> Metric \<Rightarrow> bool" where
  "metric_ok okName okLabel metric \<longleftrightarrow> names_ok okName okLabel metric \<and>
     enum_clean (metric_EnumValues metric) \<and>
     (\<forall>lk \<in> set (metric_Lookups metric). lookup_clean lk) \<and>
     (metric_Type metric = ''EnumAsStateSet'' \<or> metric_Type metric = ''Bits'' \<longrightarrow>
        metric_Name metric \<notin> label_names metric)"

lemma pduToSamples_const:
  assumes s: "pduToSamples rt oids pdu metric m mx = Inr (ss, mx')"
    and ok: "prom_ok rt okName okLabel" "range_ok rt" "formats_ok rt"
      "metric_ok okName okLabel metric"
    and clean: "pdu_clean pdu" "\<forall>p \<in> ran m. pdu_clean p"
    and onwire: "metric_Type metric = ''Bits'' \<Longrightarrow> \<exists>bs. pdu_Value pdu = GBytes bs"
  shows "\<forall>x \<in> set ss. is_const x"
proof -
  have names: "names_ok okName okLabel metric" and ev: "enum_clean (metric_EnumValues metric)"
    and lk: "\<forall>lk \<in> set (metric_Lookups metric). lookup_clean lk"
    using ok(4) by (simp_all add: metric_ok_def)
  from names have name: "okName (metric_Name metric)" "okName (metric_Name metric @ ''_info'')"
    "okLabel (metric_Name metric)" by (simp_all add: names_ok_def)
  from s obtain ls m1 x where ls: "indexesToLabels rt oids metric m mx = Inr (ls, m1)"
    and x: "getPduValue rt pdu = Inr x" by (auto simp: pduToSamples_def)
  define ns where "ns = map fst (rangeLabels rt ls)"
  define vs where "vs = map snd (rangeLabels rt ls)"
  from indexesToLabels_good [OF ls ok(2,3) clean(2) lk names]
  have good: "good_labels okLabel ns vs" "set ns = label_names metric" "set ns = fst ` set ls"
    by (simp_all add: ns_def vs_def)
  note s = s [unfolded pduToSamples_def ls x bindG_simps prod.case Let_def, folded ns_def vs_def]
  note dates = date_samples_const [OF ok(1) names good(1)]
  consider (number) t v where "ss = number_sample rt metric t v ns vs"
    | (date) r where "ss = date_samples rt metric r ns vs"
    | (info) i where "ss = enumAsInfo rt metric i ns vs"
    | (state) i where "metric_Type metric = ''EnumAsStateSet''" "ss = enumAsStateSet rt metric i ns vs"
    | (bits) "metric_Type metric = ''Bits''" "bits_metric rt metric (pdu_Value pdu) ns vs = Inr ss"
    | (str) "string_samples rt oids pdu metric m ls ns vs m1 = Inr (ss, mx')"
    using s by (auto split: if_splits)
  then show ?thesis
  proof cases
    case number
    with number_sample_good [OF ok(1) name(1) good(1)] show ?thesis by simp
  next
    case date
    with dates show ?thesis by simp
  next
    case info
    with enumAsInfo_good [OF ok(1) name(2,3) good(1) _ ev] show ?thesis
      by (cases "metric_Name metric \<in> set ns") (auto simp: enumAsInfo_def Let_def)
  next
    case state
    then have "metric_Name metric \<notin> set ns" using ok(4) good(2) by (simp add: metric_ok_def)
    from enumAsStateSet_good [OF ok(1) name(1,3) good(1) this ev] state(2) show ?thesis by auto
  next
    case b: bits
    then have "metric_Name metric \<notin> set ns" using ok(4) good(2) by (simp add: metric_ok_def)
    moreover from onwire [OF b(1)] obtain bs where "pdu_Value pdu = GBytes bs" by blast
    ultimately show ?thesis using bits_metric_const [OF _ ok(1) names good(1) _ ev] b(2) by simp
  next
    case str
    from string_samples_const [OF str ok(1) names good(1,3) clean(1) ok(3)] show ?thesis .
  qed
qed

text \<open>A state set whose metric name is already a label is rejected as a whole.\<close>

lemma enumAsStateSet_clash:
  assumes "prom_ok rt okName okLabel" "metric_Name metric \<in> set ns"
  shows "\<forall>x \<in> set (enumAsStateSet rt metric v ns vs). \<not> is_const x"
proof -
  have "\<not> is_const (state_sample rt metric (ns @ [metric_Name metric]) vs w st)" for w st
    using assms unfolding state_sample_def by (intro newConstMetric_rejects) auto
  then show ?thesis by (auto simp: enumAsStateSet_def Let_def)
qed

text \<open>A state set whose metric name is already one of its labels exports nothing but errors.\<close>

lemma state_set_label_clash:
  assumes "prom_ok rt okName okLabel" "metric_Name metric \<in> set ns"
  shows "\<forall>s \<in> set (enumAsStateSet rt metric v ns vs). \<not> is_const s"
  by (rule enumAsStateSet_clash [OF assms])

end
