(* ===== verification/MetricTree.thy ===== *)
theory MetricTree
  imports Oid Config
begin

text \<open>
  The tree of metrics \<open>collect\<close> builds from a module's configuration to find the metric of a
  variable (\<open>buildMetricTree\<close> and the walk down in \<open>collect\<close>, \<open>collector/collector.go\<close>). The
  locale \<open>prefix_index\<close> is the contract of such an index (what a path holds after an insertion,
  and what the search finds); its client lemmas say what a search in an index built from a list
  finds. The interpretation discharges the contract for the tree of the code.
\<close>

section \<open>The code\<close>

datatype MetricNode =
  MetricNode (node_metric: "Metric option") (node_children: "int \<Rightarrow> MetricNode option")

definition empty_node :: MetricNode where
  "empty_node = MetricNode None (\<lambda>_. None)"

text \<open>The inner loop of \<open>buildMetricTree\<close>: walk down the components, creating missing nodes.\<close>

fun insert_metric :: "int list \<Rightarrow> Metric \<Rightarrow> MetricNode \<Rightarrow> MetricNode" where
  "insert_metric [] m (MetricNode v c) = MetricNode (Some m) c"
| "insert_metric (k # ks) m (MetricNode v c) =
     MetricNode v (c(k \<mapsto> insert_metric ks m (case c k of None \<Rightarrow> empty_node | Some t \<Rightarrow> t)))"

definition buildMetricTree :: "Metric list \<Rightarrow> MetricNode" where
  "buildMetricTree metrics =
     fold (\<lambda>metric. insert_metric (oidToList (metric_Oid metric)) metric) metrics empty_node"

text \<open>The search of \<open>collect\<close>: the metric found and the components after it.\<close>

fun find_metric :: "MetricNode \<Rightarrow> int list \<Rightarrow> (Metric \<times> int list) option" where
  "find_metric head [] = None"
| "find_metric (MetricNode v c) (k # ks) =
     (case c k of
        None \<Rightarrow> None
      | Some head \<Rightarrow>
          (case node_metric head of
             Some m \<Rightarrow> Some (m, ks)
           | None \<Rightarrow> find_metric head ks))"

section \<open>The contract of an index over OID prefixes\<close>

locale prefix_index =
  fixes empty :: 't
    and insert :: "'k list \<Rightarrow> 'v \<Rightarrow> 't \<Rightarrow> 't"
    and at :: "'t \<Rightarrow> 'k list \<Rightarrow> 'v option"
    and search :: "'t \<Rightarrow> 'k list \<Rightarrow> ('v \<times> 'k list) option"
  assumes at_empty: "at empty p = None"
    and at_insert: "at (insert p v t) q = (if p = q then Some v else at t q)"
    and search_Some: "search t ks = Some (v, rest) \<longleftrightarrow>
      (\<exists>p. p \<noteq> [] \<and> ks = p @ rest \<and> at t p = Some v \<and>
         (\<forall>q r. p = q @ r \<longrightarrow> q \<noteq> [] \<longrightarrow> r \<noteq> [] \<longrightarrow> at t q = None))"
begin

definition build :: "('k list \<times> 'v) list \<Rightarrow> 't" where
  "build kvs = fold (\<lambda>(k, v). insert k v) kvs empty"

text \<open>The index built from a list holds, at each path, the last value inserted there.\<close>

lemma at_build: "at (build kvs) = map_of (rev kvs)"
proof -
  have "at (fold (\<lambda>(k, v). insert k v) kvs t) q =
      (case map_of (rev kvs) q of None \<Rightarrow> at t q | Some v \<Rightarrow> Some v)" for t q
    by (induction kvs arbitrary: t)
      (auto simp: at_insert map_add_def split: option.split)
  then show ?thesis by (auto simp: build_def at_empty fun_eq_iff split: option.split)
qed

lemma search_prefix:
  "search t ks = Some (v, rest) \<Longrightarrow> \<exists>p. p \<noteq> [] \<and> ks = p @ rest \<and> at t p = Some v"
  by (auto simp: search_Some)

text \<open>A search fails exactly when no non-empty prefix holds a value.\<close>

lemma search_None:
  "search t ks = None \<longleftrightarrow> (\<forall>p rest. ks = p @ rest \<longrightarrow> p \<noteq> [] \<longrightarrow> at t p = None)"
proof
  assume none: "search t ks = None"
  show "\<forall>p rest. ks = p @ rest \<longrightarrow> p \<noteq> [] \<longrightarrow> at t p = None"
  proof (intro allI impI, rule ccontr)
    fix p rest
    assume "ks = p @ rest" "p \<noteq> []" "at t p \<noteq> None"
    define P where "P n \<longleftrightarrow> (\<exists>p rest. length p = n \<and> ks = p @ rest \<and> p \<noteq> [] \<and> at t p \<noteq> None)" for n
    from \<open>ks = p @ rest\<close> \<open>p \<noteq> []\<close> \<open>at t p \<noteq> None\<close> have "P (length p)" by (auto simp: P_def)
    then obtain n where n: "P n" "\<forall>m<n. \<not> P m" using exists_least_iff [of P] by blast
    from n(1) obtain q s where q: "length q = n" "ks = q @ s" "q \<noteq> []" "at t q \<noteq> None"
      by (auto simp: P_def)
    have least: "at t a = None" if "ks = a @ r" "a \<noteq> []" "length a < length q" for a r
      using n(2) that q(1) by (auto simp: P_def)
    from q(4) obtain v where "at t q = Some v" by blast
    moreover have "\<forall>a r. q = a @ r \<longrightarrow> a \<noteq> [] \<longrightarrow> r \<noteq> [] \<longrightarrow> at t a = None"
      using least q(2) by auto
    ultimately have "search t ks = Some (v, s)" using q(2,3) unfolding search_Some by blast
    with none show False by simp
  qed
next
  assume all: "\<forall>p rest. ks = p @ rest \<longrightarrow> p \<noteq> [] \<longrightarrow> at t p = None"
  show "search t ks = None"
  proof (cases "search t ks")
    case (Some vr)
    then obtain v r where "search t ks = Some (v, r)" by (cases vr) simp
    from search_prefix [OF this] obtain p where "p \<noteq> []" "ks = p @ r" "at t p = Some v" by blast
    with all show ?thesis by simp
  qed simp
qed

text \<open>Where no stored path extends another, every path under a stored one finds its value.\<close>

lemma search_under:
  assumes "at t p = Some v" and "p \<noteq> []"
    and "\<And>q r. p = q @ r \<Longrightarrow> q \<noteq> [] \<Longrightarrow> r \<noteq> [] \<Longrightarrow> at t q = None"
  shows "search t (p @ rest) = Some (v, rest)"
  using assms by (auto simp: search_Some)

end

section \<open>The tree of the code meets it\<close>

text \<open>The metric stored at a path.\<close>

fun metric_at :: "MetricNode \<Rightarrow> int list \<Rightarrow> Metric option" where
  "metric_at head [] = node_metric head"
| "metric_at (MetricNode v c) (k # ks) =
     (case c k of None \<Rightarrow> None | Some head \<Rightarrow> metric_at head ks)"

lemma metric_at_empty: "metric_at empty_node p = None"
  by (cases p) (simp_all add: empty_node_def)

lemma metric_at_insert:
  "metric_at (insert_metric p m t) q = (if p = q then Some m else metric_at t q)"
proof (induction p m t arbitrary: q rule: insert_metric.induct)
  case (1 m v c)
  then show ?case by (cases q) simp_all
next
  case (2 k ks m v c)
  then show ?case
    by (cases q) (auto simp: metric_at_empty split: option.split)
qed

text \<open>No value on the way to a path: from the root on, or below the first step.\<close>

definition bare :: "MetricNode \<Rightarrow> int list \<Rightarrow> bool" where
  "bare t p \<longleftrightarrow> (\<forall>q r. p = q @ r \<longrightarrow> q \<noteq> [] \<longrightarrow> r \<noteq> [] \<longrightarrow> metric_at t q = None)"

lemma bare_Cons:
  assumes "c k = Some head"
  shows "bare (MetricNode v c) (k # p) \<longleftrightarrow> p = [] \<or> node_metric head = None \<and> bare head p"
proof
  assume b: "bare (MetricNode v c) (k # p)"
  have none: "metric_at head q = None" if "p = q @ r" "r \<noteq> []" for q r
    using b [unfolded bare_def, rule_format, of "k # q" r] that assms by simp
  show "p = [] \<or> node_metric head = None \<and> bare head p"
    using none [of "[]" p] none by (cases "p = []") (simp_all add: bare_def)
next
  assume b: "p = [] \<or> node_metric head = None \<and> bare head p"
  show "bare (MetricNode v c) (k # p)"
    unfolding bare_def
  proof (intro allI impI)
    fix q r
    assume "k # p = q @ r" "q \<noteq> []" "r \<noteq> []"
    then obtain q' where "q = k # q'" "p = q' @ r" by (cases q) auto
    with b assms \<open>r \<noteq> []\<close> show "metric_at (MetricNode v c) q = None"
      by (cases "q' = []") (auto simp: bare_def)
  qed
qed

lemma find_metric_bare:
  "find_metric t ks = Some (m, rest) \<longleftrightarrow>
   (\<exists>p. p \<noteq> [] \<and> ks = p @ rest \<and> metric_at t p = Some m \<and> bare t p)"
proof (induction t ks rule: find_metric.induct)
  case (2 v c k ks)
  have Cons: "(\<exists>p. p \<noteq> [] \<and> k # ks = p @ rest \<and> metric_at (MetricNode v c) p = Some m
        \<and> bare (MetricNode v c) p) \<longleftrightarrow>
      (\<exists>p. ks = p @ rest \<and> metric_at (MetricNode v c) (k # p) = Some m
        \<and> bare (MetricNode v c) (k # p))"
    by (auto simp: Cons_eq_append_conv)
  show ?case
  proof (cases "c k")
    case None
    then show ?thesis unfolding Cons by simp
  next
    case head: (Some head)
    show ?thesis
    proof (cases "node_metric head")
      case (Some m')
      with head show ?thesis unfolding Cons by (auto simp: bare_Cons [of c k head, OF head])
    next
      case None
      with 2 head show ?thesis unfolding Cons
        by (auto simp: bare_Cons [of c k head, OF head])
    qed
  qed
qed simp

lemma find_metric_Some:
  "find_metric t ks = Some (m, rest) \<longleftrightarrow>
   (\<exists>p. p \<noteq> [] \<and> ks = p @ rest \<and> metric_at t p = Some m \<and>
      (\<forall>q r. p = q @ r \<longrightarrow> q \<noteq> [] \<longrightarrow> r \<noteq> [] \<longrightarrow> metric_at t q = None))"
  using find_metric_bare unfolding bare_def .

interpretation mt: prefix_index empty_node insert_metric metric_at find_metric
  by unfold_locales (simp_all add: metric_at_empty metric_at_insert find_metric_Some)

text \<open>The metrics of a module as entries of the index.\<close>

definition metric_entries :: "Metric list \<Rightarrow> (int list \<times> Metric) list" where
  "metric_entries metrics = map (\<lambda>m. (oidToList (metric_Oid m), m)) metrics"

lemma buildMetricTree_build: "buildMetricTree metrics = mt.build (metric_entries metrics)"
  by (simp add: buildMetricTree_def mt.build_def metric_entries_def fold_map o_def)

lemma metric_at_build:
  "metric_at (buildMetricTree metrics) = map_of (rev (metric_entries metrics))"
  by (simp add: buildMetricTree_build mt.at_build)

end
