(* ===== verification/Collect.thy ===== *)
theory Collect
  imports Scrape ConfigOps Samples MetricTree
begin

text \<open>
  \<open>Collector.collect\<close> and \<open>Collector.Collect\<close> of \<open>collector/collector.go\<close>. \<open>collect\<close> scrapes one
  module and sends its samples; \<open>Collect\<close> runs the modules on a pool of workers, which is a
  step relation between states of the pool. Sending to the channel is appending to a list; the
  receiver of the channel is assumed to keep receiving, as the Prometheus registry does. The
  times that \<open>collect\<close> measures are parameters.
\<close>

section \<open>One module\<close>

text \<open>What goes to the channel: samples, metrics about the scrape of a module, and errors.\<close>

datatype emitted =
    Emit sample
  | ModuleMetric string string f64 \<comment> \<open>name, module, value\<close>
  | ScrapeErrorMetric string scrape_error \<comment> \<open>module\<close>
  | WorkerInitError target_error
  | ConnectErrorMetric scrape_error

type_synonym named_module = "string \<times> Module"

text \<open>
  What a scrape observes of its surroundings: the two durations, the packets the library has
  sent and retried so far (its callbacks count them), and the order of \<open>range\<close> over the
  variables.
\<close>

record 'c surroundings =
  walk_seconds :: f64
  scrape_seconds :: f64
  packets_sent :: "'c \<Rightarrow> nat"
  packets_retried :: "'c \<Rightarrow> nat"
  range_pdus :: "(string \<times> SnmpPDU) list \<Rightarrow> (string \<times> SnmpPDU) list"

text \<open>The walk options of a module; \<open>*module.WalkParams.Retries\<close> panics on a nil pointer.\<close>

definition walk_options :: "WalkParams \<Rightarrow> GoSNMP \<Rightarrow> GoSNMP go" where
  "walk_options wp g = (case Retries wp of
       None \<Rightarrow> Inl NilDereference
     | Some r \<Rightarrow>
         (let g1 = g\<lparr>gs_Retries := r, gs_Timeout := Timeout wp, gs_MaxRepetitions := MaxRepetitions wp,
                gs_UseUnconnectedUDPSocket := UseUnconnectedUDPSocket wp\<rparr>
          in Inr (if AllowNonIncreasingOIDs wp then g1\<lparr>AppOpts_c := True\<rparr> else g1)))"

text \<open>\<open>oidToPdu\<close>: the key is the name without its first byte; a later variable replaces.\<close>

fun index_pdus :: "SnmpPDU list \<Rightarrow> (string \<times> SnmpPDU) list \<Rightarrow> (string \<times> SnmpPDU) list go" where
  "index_pdus [] m = Inr m"
| "index_pdus (pdu # pdus) m =
     (if pdu_Name pdu = [] then Inl IndexOutOfRange
      else index_pdus pdus (AList.update (tl (pdu_Name pdu)) pdu m))"

text \<open>The body of the loop over the variables.\<close>

definition match_pdu :: "runtime \<Rightarrow> MetricNode \<Rightarrow> pdu_map \<Rightarrow> string \<times> SnmpPDU
    \<Rightarrow> sample list \<times> Metrics \<Rightarrow> (sample list \<times> Metrics) go" where
  "match_pdu rt metricTree oidToPdu e st = (case e of (oid, pdu) \<Rightarrow> (case st of (out, metrics) \<Rightarrow>
     (case find_metric metricTree (oidToList oid) of
        None \<Rightarrow> Inr (out, metrics)
      | Some (metric, indexOids) \<Rightarrow>
          bindG (pduToSamples rt indexOids pdu metric oidToPdu metrics) (\<lambda>(samples, metrics').
            Inr (out @ samples, metrics')))))"

text \<open>What follows a scrape without error.\<close>

definition process_pdus :: "runtime \<Rightarrow> 'c surroundings \<Rightarrow> Module \<Rightarrow> SnmpPDU list \<Rightarrow> Metrics
    \<Rightarrow> (sample list \<times> Metrics) go" where
  "process_pdus rt env module pdus metrics =
     bindG (index_pdus pdus []) (\<lambda>oidToPdu.
       foldG (match_pdu rt (buildMetricTree (module_Metrics module)) (map_of oidToPdu))
         (range_pdus env oidToPdu) ([], metrics))"

definition count_packets :: "'c surroundings \<Rightarrow> 'c \<Rightarrow> 'c \<Rightarrow> Metrics \<Rightarrow> Metrics" where
  "count_packets env c c' metrics =
     metrics\<lparr>SNMPPackets := SNMPPackets metrics + (packets_sent env c' - packets_sent env c),
       SNMPRetries := SNMPRetries metrics + (packets_retried env c' - packets_retried env c)\<rparr>"

definition collect :: "'c SNMPScraper \<Rightarrow> runtime \<Rightarrow> 'c surroundings \<Rightarrow> string \<Rightarrow> Auth \<Rightarrow> named_module
    \<Rightarrow> Metrics \<Rightarrow> 'c \<Rightarrow> (emitted list \<times> Metrics \<times> 'c) go option" where
  "collect client rt env target auth nm metrics c0 = (case nm of (name, module) \<Rightarrow>
     (case SetOptions client [walk_options (module_WalkParams module)] c0 of
        Inl p \<Rightarrow> Some (Inl p)
      | Inr c \<Rightarrow>
          map_option (\<lambda>res. bindG res (\<lambda>((pdus, err), metrics1, c').
            let metrics2 = count_packets env c c' metrics1 in
            (case err of
               Some e \<Rightarrow> Inr ([ScrapeErrorMetric name e], metrics2, c')
             | None \<Rightarrow>
                 bindG (process_pdus rt env module pdus metrics2) (\<lambda>(samples, metrics3).
                   Inr ([ModuleMetric ''snmp_scrape_walk_duration_seconds'' name (walk_seconds env),
                         ModuleMetric ''snmp_scrape_packets_sent'' name
                           (f64_of_int (int (packets_sent env c' - packets_sent env c))),
                         ModuleMetric ''snmp_scrape_packets_retried'' name
                           (f64_of_int (int (packets_retried env c' - packets_retried env c))),
                         ModuleMetric ''snmp_scrape_pdus_returned'' name (f64_of_int (int (length pdus)))]
                        @ map Emit samples
                        @ [ModuleMetric ''snmp_scrape_duration_seconds'' name (scrape_seconds env)],
                        metrics3, c')))))
            (ScrapeTarget client rt target auth module metrics c)))"

section \<open>Starting a worker\<close>

text \<open>\<open>hex.DecodeString\<close>: two digits a byte, either case; an odd length is an error.\<close>

definition hex_val :: "char \<Rightarrow> nat option" where
  "hex_val c =
     (let n = (of_char c :: nat) in
      if 48 \<le> n \<and> n \<le> 57 then Some (n - 48)
      else if 97 \<le> n \<and> n \<le> 102 then Some (n - 87)
      else if 65 \<le> n \<and> n \<le> 70 then Some (n - 55) else None)"

fun hex_decode :: "string \<Rightarrow> string option" where
  "hex_decode [] = Some []"
| "hex_decode [c] = None"
| "hex_decode (c # d # cs) = (case (hex_val c, hex_val d) of
       (Some x, Some y) \<Rightarrow> map_option (\<lambda>r. char_of (16 * x + y) # r) (hex_decode cs)
     | _ \<Rightarrow> None)"

record collector =
  coll_target :: string
  coll_auth :: Auth
  coll_modules :: "named_module list"
  coll_concurrency :: int
  coll_context :: string
  coll_engineID :: string
  coll_srcAddress :: string

text \<open>
  What a worker does before it takes modules: \<open>Inl\<close> is what it sends before it gives up, after
  calling \<open>cancel\<close>; \<open>Inr\<close> its client.
\<close>

definition worker_start :: "'n gosnmp_lib \<Rightarrow> collector \<Rightarrow> 'n \<Rightarrow> emitted list + 'n wrapper" where
  "worker_start lib c n = (case NewGoSNMP (coll_target c) (coll_srcAddress c) of
       Inl e \<Rightarrow> Inl [WorkerInitError e]
     | Inr g \<Rightarrow>
         (case (if coll_engineID c \<noteq> [] \<and> auth_Version (coll_auth c) = 3
                then map_option (\<lambda>s. g\<lparr>ContextEngineID := s\<rparr>) (hex_decode (coll_engineID c))
                else Some g) of
            None \<Rightarrow> Inl []
          | Some g1 \<Rightarrow>
              (let g2 = ConfigureSNMP (coll_auth c) (coll_context c)
                     (g1\<lparr>gs_UseUnconnectedUDPSocket :=
                       list_ex (\<lambda>m. UseUnconnectedUDPSocket (module_WalkParams (snd m))) (coll_modules c)\<rparr>)
               in (case wrapper_Connect lib (g2, n) of
                     (Some err, _) \<Rightarrow> Inl [ConnectErrorMetric err]
                   | (None, w) \<Rightarrow> Inr w))))"

section \<open>The pool\<close>

datatype 'c worker = Starting | Idle 'c | Busy named_module 'c | Exited

text \<open>
  \<open>pending\<close> is what the loop of \<open>Collect\<close> still has to send, \<open>closed\<close> that it has closed the
  channel, \<open>cancelled\<close> that the context is done. \<open>finished\<close> are the modules whose scrape has ended,
  in that order, \<open>chan\<close> what was sent.
\<close>

record 'c pool =
  pending :: "named_module list"
  closed :: bool
  cancelled :: bool
  workers :: "'c worker list"
  finished :: "named_module list"
  chan :: "emitted list"
  pool_metrics :: Metrics
  crashed :: "panic option"

definition workerCount :: "collector \<Rightarrow> nat" where
  "workerCount c = nat (max (coll_concurrency c) 1)"

definition pool_init :: "collector \<Rightarrow> Metrics \<Rightarrow> 'c pool" where
  "pool_init c metrics = \<lparr>pending = coll_modules c, closed = False, cancelled = False,
     workers = replicate (workerCount c) Starting, finished = [], chan = [],
     pool_metrics = metrics, crashed = None\<rparr>"

text \<open>
  \<open>start i\<close> is how the start of worker \<open>i\<close> ends and \<open>run\<close> the scrape of a module. A panic in any
  goroutine ends the program: no step leaves a crashed state.
\<close>

inductive pool_step ::
  "(nat \<Rightarrow> emitted list + 'c) \<Rightarrow> (named_module \<Rightarrow> Metrics \<Rightarrow> 'c \<Rightarrow> (emitted list \<times> Metrics \<times> 'c) go option)
   \<Rightarrow> 'c pool \<Rightarrow> 'c pool \<Rightarrow> bool"
  for start run where
  fail: "crashed s = None \<Longrightarrow> i < length (workers s) \<Longrightarrow> workers s ! i = Starting \<Longrightarrow> start i = Inl out \<Longrightarrow>
    pool_step start run s (s\<lparr>workers := (workers s)[i := Exited], cancelled := True, chan := chan s @ out\<rparr>)"
| ready: "crashed s = None \<Longrightarrow> i < length (workers s) \<Longrightarrow> workers s ! i = Starting \<Longrightarrow> start i = Inr c \<Longrightarrow>
    pool_step start run s (s\<lparr>workers := (workers s)[i := Idle c]\<rparr>)"
| send: "crashed s = None \<Longrightarrow> \<not> closed s \<Longrightarrow> pending s = m # ms \<Longrightarrow>
    i < length (workers s) \<Longrightarrow> workers s ! i = Idle c \<Longrightarrow>
    pool_step start run s (s\<lparr>pending := ms, workers := (workers s)[i := Busy m c]\<rparr>)"
| finish: "crashed s = None \<Longrightarrow> i < length (workers s) \<Longrightarrow> workers s ! i = Busy m c \<Longrightarrow>
    run m (pool_metrics s) c = Some (Inr (out, mx, c')) \<Longrightarrow>
    pool_step start run s (s\<lparr>workers := (workers s)[i := Idle c'], finished := finished s @ [m],
      chan := chan s @ out, pool_metrics := mx\<rparr>)"
| crash: "crashed s = None \<Longrightarrow> i < length (workers s) \<Longrightarrow> workers s ! i = Busy m c \<Longrightarrow>
    run m (pool_metrics s) c = Some (Inl p) \<Longrightarrow>
    pool_step start run s (s\<lparr>crashed := Some p\<rparr>)"
| abandon: "crashed s = None \<Longrightarrow> \<not> closed s \<Longrightarrow> pending s \<noteq> [] \<Longrightarrow> cancelled s \<Longrightarrow>
    pool_step start run s (s\<lparr>closed := True\<rparr>)"
| close: "crashed s = None \<Longrightarrow> \<not> closed s \<Longrightarrow> pending s = [] \<Longrightarrow>
    pool_step start run s (s\<lparr>closed := True\<rparr>)"
| leave: "crashed s = None \<Longrightarrow> closed s \<Longrightarrow> i < length (workers s) \<Longrightarrow> workers s ! i = Idle c \<Longrightarrow>
    pool_step start run s (s\<lparr>workers := (workers s)[i := Exited]\<rparr>)"
| cancel: "crashed s = None \<Longrightarrow> \<not> cancelled s \<Longrightarrow>
    pool_step start run s (s\<lparr>cancelled := True\<rparr>)"

text \<open>\<open>Collect\<close> returns when the channel is closed and every worker is done.\<close>

definition returned :: "'c pool \<Rightarrow> bool" where
  "returned s \<longleftrightarrow> crashed s = None \<and> closed s \<and> list_all (\<lambda>w. w = Exited) (workers s)"

text \<open>The states \<open>Collect\<close> can reach.\<close>

inductive reachable for start run c metrics where
  init: "reachable start run c metrics (pool_init c metrics)"
| step: "reachable start run c metrics s \<Longrightarrow> pool_step start run s t \<Longrightarrow> reachable start run c metrics t"

section \<open>No module is lost or scraped twice\<close>

fun busy_of :: "'c worker \<Rightarrow> named_module multiset" where
  "busy_of (Busy m c) = {#m#}"
| "busy_of w = {#}"

definition busy :: "'c worker list \<Rightarrow> named_module multiset" where
  "busy ws = \<Sum>\<^sub># (image_mset busy_of (mset ws))"

lemma busy_update:
  assumes "i < length ws"
  shows "busy (ws[i := w]) + busy_of (ws ! i) = busy ws + busy_of w"
proof -
  have "mset ws = add_mset (ws ! i) (mset ws - {#ws ! i#})"
    using assms by (simp add: nth_mem_mset)
  then have "busy ws = busy_of (ws ! i) + \<Sum>\<^sub># (image_mset busy_of (mset ws - {#ws ! i#}))"
    unfolding busy_def by (metis image_mset_add_mset sum_mset.add_mset)
  then show ?thesis using assms by (simp add: busy_def mset_update)
qed

lemma busy_replicate: "busy (replicate n Starting) = {#}"
  by (induction n) (simp_all add: busy_def)

definition accounted :: "'c pool \<Rightarrow> named_module multiset" where
  "accounted s = mset (pending s) + busy (workers s) + mset (finished s)"

lemma step_accounted:
  assumes "pool_step start run s t"
  shows "accounted t = accounted s"
  using assms
proof (cases rule: pool_step.cases)
  case (fail i out)
  with busy_update [of i "workers s" Exited] show ?thesis by (simp add: accounted_def)
next
  case (ready i c)
  with busy_update [of i "workers s" "Idle c"] show ?thesis by (simp add: accounted_def)
next
  case (send m ms i c)
  with busy_update [of i "workers s" "Busy m c"] show ?thesis by (simp add: accounted_def)
next
  case (finish i m c out mx c')
  with busy_update [of i "workers s" "Idle c'"] show ?thesis by (simp add: accounted_def)
next
  case (leave i c)
  with busy_update [of i "workers s" Exited] show ?thesis by (simp add: accounted_def)
qed (simp_all add: accounted_def)

lemma reachable_accounted:
  "reachable start run c metrics s \<Longrightarrow> accounted s = mset (coll_modules c)"
  by (induction rule: reachable.induct)
    (simp_all add: step_accounted, simp add: accounted_def pool_init_def busy_replicate)

section \<open>The pool does not get stuck\<close>

text \<open>
  A worker has left only when the context is cancelled or the channel closed; modules are left
  behind only when the context is cancelled.
\<close>

definition pool_inv :: "'c pool \<Rightarrow> bool" where
  "pool_inv s \<longleftrightarrow> workers s \<noteq> [] \<and>
     (\<not> closed s \<longrightarrow> \<not> cancelled s \<longrightarrow> Exited \<notin> set (workers s)) \<and>
     (closed s \<longrightarrow> \<not> cancelled s \<longrightarrow> pending s = [])"

lemma step_inv:
  assumes "pool_step start run s t" "pool_inv s"
  shows "pool_inv t"
proof -
  have upd: "Exited \<notin> set (ws[i := w])" if "Exited \<notin> set ws" "w \<noteq> Exited" for ws :: "'a worker list" and i w
    using that set_update_subset_insert [of ws i w] by auto
  from assms(1) show ?thesis
    by (cases rule: pool_step.cases) (use assms(2) in \<open>auto simp: pool_inv_def upd\<close>)
qed

lemma reachable_inv: "reachable start run c metrics s \<Longrightarrow> pool_inv s"
proof (induction rule: reachable.induct)
  case init
  show ?case by (auto simp: pool_inv_def pool_init_def workerCount_def)
next
  case (step s t)
  then show ?case by (blast intro: step_inv)
qed

lemma worker_progress:
  assumes "crashed s = None" "w \<in> set (workers s)" "w \<noteq> Exited" "\<And>m mx c. \<exists>r. run m mx c = Some r"
  shows "\<exists>t. pool_step start run s t"
proof -
  from assms(2) obtain i where i: "i < length (workers s)" "workers s ! i = w"
    by (auto simp: in_set_conv_nth)
  show ?thesis
  proof (cases w)
    case Starting
    then show ?thesis using pool_step.fail [OF assms(1) i(1)] pool_step.ready [OF assms(1) i(1)] i
      by (cases "start i") blast+
  next
    case (Idle c)
    consider "closed s" | "\<not> closed s" "pending s = []" | m ms where "\<not> closed s" "pending s = m # ms"
      by (cases "pending s") auto
    then show ?thesis
    proof cases
      case 1
      with pool_step.leave [OF assms(1) _ i(1)] i Idle show ?thesis by blast
    next
      case 2
      with pool_step.close [OF assms(1)] show ?thesis by blast
    next
      case 3
      with pool_step.send [OF assms(1) _ _ i(1)] i Idle show ?thesis by blast
    qed
  next
    case (Busy m c)
    from assms(4) obtain r where "run m (pool_metrics s) c = Some r" by blast
    then show ?thesis
      using pool_step.finish [OF assms(1) i(1)] pool_step.crash [OF assms(1) i(1)] i Busy
      by (cases r) (metis prod_cases3)+
  qed (use assms in simp)
qed

lemma pool_progress:
  assumes "reachable start run c metrics s" "crashed s = None" "\<not> returned s"
    and "\<And>m mx c. \<exists>r. run m mx c = Some r"
  shows "\<exists>t. pool_step start run s t"
proof (cases "list_all (\<lambda>w. w = Exited) (workers s)")
  case False
  then obtain w where "w \<in> set (workers s)" "w \<noteq> Exited" by (auto simp: list_all_iff)
  with worker_progress assms(2,4) show ?thesis by blast
next
  case True
  with assms(2,3) have open': "\<not> closed s" by (simp add: returned_def)
  show ?thesis
  proof (cases "pending s = []")
    case True
    with open' pool_step.close [OF assms(2)] show ?thesis by blast
  next
    case more: False
    from reachable_inv [OF assms(1)] True open' have "cancelled s"
      by (cases "workers s") (auto simp: pool_inv_def)
    with more open' pool_step.abandon [OF assms(2)] show ?thesis by blast
  qed
qed

section \<open>Every run of the pool ends\<close>

fun worker_weight :: "'c worker \<Rightarrow> nat" where
  "worker_weight Starting = 2"
| "worker_weight (Busy m c) = 2"
| "worker_weight (Idle c) = 1"
| "worker_weight Exited = 0"

definition pool_weight :: "'c pool \<Rightarrow> nat" where
  "pool_weight s = 2 * length (pending s) + sum_list (map worker_weight (workers s)) +
     (if closed s then 0 else 1) + (if cancelled s then 0 else 1) + (if crashed s = None then 1 else 0)"

lemma weight_update:
  "i < length ws \<Longrightarrow> sum_list (map worker_weight (ws[i := w])) + worker_weight (ws ! i) =
     sum_list (map worker_weight ws) + worker_weight w"
proof (induction ws arbitrary: i)
  case (Cons v ws)
  then show ?case by (cases i) auto
qed simp

lemma step_weight:
  assumes "pool_step start run s t"
  shows "pool_weight t < pool_weight s"
  using assms
proof (cases rule: pool_step.cases)
  case (fail i out)
  with weight_update [of i "workers s" Exited] show ?thesis by (simp add: pool_weight_def)
next
  case (ready i c)
  with weight_update [of i "workers s" "Idle c"] show ?thesis by (simp add: pool_weight_def)
next
  case (send m ms i c)
  with weight_update [of i "workers s" "Busy m c"] show ?thesis by (simp add: pool_weight_def)
next
  case (finish i m c out mx c')
  with weight_update [of i "workers s" "Idle c'"] show ?thesis by (simp add: pool_weight_def)
next
  case (leave i c)
  with weight_update [of i "workers s" Exited] show ?thesis by (simp add: pool_weight_def)
qed (simp_all add: pool_weight_def)

lemma pool_terminates: "wfP (\<lambda>t s. pool_step start run s t)"
  by (rule wfp_if_convertible_to_nat [of _ pool_weight]) (rule step_weight)

section \<open>What a module emits\<close>

lemma collect_total: "SetOptions client [walk_options (module_WalkParams (snd nm))] c = Inr c' \<or>
    SetOptions client [walk_options (module_WalkParams (snd nm))] c = Inl p \<Longrightarrow>
  \<exists>r. collect client rt env target auth nm metrics c = Some r"
  using ScrapeTarget_total [of client rt target auth "snd nm" metrics c']
  by (auto simp: collect_def split: prod.splits)

lemma index_pdus_names: "index_pdus pdus m = Inr m' \<Longrightarrow> \<forall>pdu \<in> set pdus. pdu_Name pdu \<noteq> []"
  by (induction pdus m rule: index_pdus.induct) (auto split: if_splits)

text \<open>The table holds, for each name, the last variable with it.\<close>

definition pdu_entry :: "SnmpPDU \<Rightarrow> string \<times> SnmpPDU" where
  "pdu_entry pdu = (tl (pdu_Name pdu), pdu)"

lemma index_pdus_map:
  "index_pdus pdus m = Inr m' \<Longrightarrow> map_of m' = map_of m ++ map_of (rev (map pdu_entry pdus))"
proof (induction pdus m rule: index_pdus.induct)
  case (2 pdu pdus m)
  then show ?case
    by (simp add: update_conv' pdu_entry_def map_add_def fun_eq_iff split: if_splits option.split)
qed simp

lemma index_pdus_distinct: "index_pdus pdus m = Inr m' \<Longrightarrow> distinct (map fst m) \<Longrightarrow> distinct (map fst m')"
  by (induction pdus m rule: index_pdus.induct) (auto simp: distinct_update split: if_splits)

lemma index_pdus_members:
  assumes "index_pdus pdus [] = Inr m"
  shows "(oid, pdu) \<in> set m \<longleftrightarrow> map_of (rev (map pdu_entry pdus)) oid = Some pdu"
  using index_pdus_map [OF assms] index_pdus_distinct [OF assms]
  by (simp flip: map_of_eq_Some_iff)

lemma index_pdus_from: "index_pdus pdus [] = Inr m \<Longrightarrow> (oid, pdu) \<in> set m \<Longrightarrow> pdu \<in> set pdus"
  by (auto simp: index_pdus_members pdu_entry_def dest!: map_of_SomeD)

text \<open>The samples of one variable: none, or those of the metric found for it.\<close>

definition samples_of :: "runtime \<Rightarrow> MetricNode \<Rightarrow> pdu_map \<Rightarrow> string \<times> SnmpPDU \<Rightarrow> sample list \<Rightarrow> bool" where
  "samples_of rt tree m e part \<longleftrightarrow>
     (case find_metric tree (oidToList (fst e)) of
        None \<Rightarrow> part = []
      | Some (metric, indexOids) \<Rightarrow>
          (\<exists>mx mx'. pduToSamples rt indexOids (snd e) metric m mx = Inr (part, mx')))"

lemma match_pdu_result:
  "match_pdu rt tree m e (out, mx) = Inr (out1, mx1) \<Longrightarrow>
   \<exists>part. out1 = out @ part \<and> samples_of rt tree m e part"
  by (cases e; cases "find_metric tree (oidToList (fst e))")
    (simp add: match_pdu_def samples_of_def, auto simp: match_pdu_def samples_of_def, blast)

lemma match_pdus:
  "foldG (match_pdu rt tree m) es (out, mx) = Inr (out', mx') \<Longrightarrow>
   \<exists>parts. out' = out @ concat parts \<and> list_all2 (samples_of rt tree m) es parts"
proof (induction es arbitrary: out mx)
  case (Cons e es)
  from Cons.prems obtain out1 mx1 where
    p1: "match_pdu rt tree m e (out, mx) = Inr (out1, mx1)"
    and r1: "foldG (match_pdu rt tree m) es (out1, mx1) = Inr (out', mx')" by auto
  from match_pdu_result [OF p1] obtain part where
    part: "out1 = out @ part" and p: "samples_of rt tree m e part" by blast
  note r = r1 [unfolded part]
  from Cons.IH [OF r] obtain parts where
    "out' = (out @ part) @ concat parts" "list_all2 (samples_of rt tree m) es parts" by blast
  with p show ?case by (intro exI [of _ "part # parts"]) simp
qed simp

text \<open>Every variable of the table is sampled once, in the order of \<open>range\<close>.\<close>

lemma process_pdus_parts:
  assumes "process_pdus rt env module pdus mx = Inr (samples, mx')"
  obtains table parts where "index_pdus pdus [] = Inr table" "samples = concat parts"
    "list_all2 (samples_of rt (buildMetricTree (module_Metrics module)) (map_of table))
       (range_pdus env table) parts"
proof -
  from assms obtain table where t: "index_pdus pdus [] = Inr table" and
    f: "foldG (match_pdu rt (buildMetricTree (module_Metrics module)) (map_of table))
      (range_pdus env table) ([], mx) = Inr (samples, mx')"
    by (auto simp: process_pdus_def)
  from match_pdus [OF f] that [OF t] show thesis by auto
qed

lemma find_metric_member:
  assumes "find_metric (buildMetricTree ms) oids = Some (m, rest)"
  shows "m \<in> set ms"
proof -
  from assms obtain p where "map_of (rev (metric_entries ms)) p = Some m"
    by (auto simp: find_metric_Some metric_at_build)
  then show ?thesis by (auto simp: metric_entries_def dest!: map_of_SomeD)
qed

definition range_pdus_ok :: "'c surroundings \<Rightarrow> bool" where
  "range_pdus_ok env \<longleftrightarrow> (\<forall>xs. set (range_pdus env xs) = set xs \<and> length (range_pdus env xs) = length xs)"

text \<open>On the wire, BITS are octet strings; the code checks it and reports what is not.\<close>

definition bits_typed :: "Module \<Rightarrow> SnmpPDU list \<Rightarrow> bool" where
  "bits_typed module pdus \<longleftrightarrow> (\<forall>m \<in> set (module_Metrics module). metric_Type m = ''Bits'' \<longrightarrow>
     (\<forall>pdu \<in> set pdus. \<exists>bs. pdu_Value pdu = GBytes bs))"

lemma list_all2_concat_all:
  assumes "list_all2 R xs ys" and "\<And>x y. x \<in> set xs \<Longrightarrow> R x y \<Longrightarrow> \<forall>z \<in> set y. P z"
  shows "\<forall>z \<in> set (concat ys). P z"
  using assms by (induction xs ys rule: list_all2_induct) auto

lemma process_pdus_accepted:
  assumes "process_pdus rt env module pdus mx = Inr (samples, mx')"
    and ok: "prom_ok rt okName okLabel" "range_ok rt" "formats_ok rt"
    and ms: "\<forall>m \<in> set (module_Metrics module). metric_ok okName okLabel m"
    and pdus: "\<forall>pdu \<in> set pdus. pdu_clean pdu" "bits_typed module pdus" and r: "range_pdus_ok env"
  shows "\<forall>s \<in> set samples. is_const s"
proof -
  let ?tree = "buildMetricTree (module_Metrics module)"
  from process_pdus_parts [OF assms(1)] obtain table parts where
    t: "index_pdus pdus [] = Inr table" "samples = concat parts"
    and parts: "list_all2 (samples_of rt ?tree (map_of table)) (range_pdus env table) parts"
    by blast
  have clean: "\<forall>p \<in> ran (map_of table). pdu_clean p"
    using index_pdus_from [OF t(1)] pdus(1) by (auto simp: ran_def dest: map_of_SomeD)
  have "\<forall>z \<in> set part. is_const z"
    if e: "e \<in> set (range_pdus env table)" and part: "samples_of rt ?tree (map_of table) e part" for e part
  proof (cases "find_metric ?tree (oidToList (fst e))")
    case None
    with part show ?thesis by (simp add: samples_of_def)
  next
    case (Some mr)
    obtain m rest where mr: "mr = (m, rest)" by (cases mr)
    with Some part obtain mx1 mx2 where
      s: "pduToSamples rt rest (snd e) m (map_of table) mx1 = Inr (part, mx2)"
      by (auto simp: samples_of_def)
    have m: "m \<in> set (module_Metrics module)" using Some mr find_metric_member by simp
    have "snd e \<in> set pdus"
      using e r index_pdus_from [OF t(1), of "fst e" "snd e"] by (auto simp: range_pdus_ok_def)
    with m ms pdus clean pduToSamples_const [OF s ok] show ?thesis
      by (auto simp: bits_typed_def)
  qed
  with list_all2_concat_all [OF parts] t(2) show ?thesis by blast
qed

section \<open>The pool over gosnmp\<close>

lemma collect_gosnmp_total:
  "\<exists>r. collect (gosnmp_scraper lib) rt env target auth nm metrics c = Some r"
proof (cases "SetOptions (gosnmp_scraper lib) [walk_options (module_WalkParams (snd nm))] c")
  case (Inl p)
  then show ?thesis by (cases nm) (simp add: collect_def)
next
  case (Inr c')
  then show ?thesis by (intro collect_total) simp
qed

lemma busy_exited: "list_all (\<lambda>w. w = Exited) ws \<Longrightarrow> busy ws = {#}"
  by (induction ws) (simp_all add: busy_def)

lemma finished_once:
  assumes "reachable start run c metrics s"
  shows "mset (finished s) \<subseteq># mset (coll_modules c)"
  using reachable_accounted [OF assms] by (simp add: accounted_def) (metis mset_subset_eq_add_right)

lemma finished_all:
  assumes "reachable start run c metrics s" "returned s" "\<not> cancelled s"
  shows "mset (finished s) = mset (coll_modules c)"
proof -
  have "pending s = []" using reachable_inv [OF assms(1)] assms(2,3)
    by (simp add: pool_inv_def returned_def)
  moreover have "busy (workers s) = {#}" using assms(2) by (simp add: returned_def busy_exited)
  ultimately show ?thesis using reachable_accounted [OF assms(1)] by (simp add: accounted_def)
qed

text \<open>Options a module sets on a session that other modules use after it.\<close>

lemma walk_options_sticky:
  "walk_options wp g = Inr g' \<Longrightarrow> AppOpts_c g \<Longrightarrow> AppOpts_c g'"
  by (auto simp: walk_options_def Let_def split: option.splits if_splits)

lemma walk_options_allow:
  "walk_options wp g = Inr g' \<Longrightarrow> AllowNonIncreasingOIDs wp \<Longrightarrow> AppOpts_c g'"
  by (auto simp: walk_options_def Let_def split: option.splits)

text \<open>The option of one module stays set for every later module of the same worker.\<close>

lemma options_leak_between_modules:
  assumes "walk_options wpA g = Inr gA" "AllowNonIncreasingOIDs wpA" "walk_options wpB gA = Inr gB"
  shows "AppOpts_c gB"
  by (rule walk_options_sticky [OF assms(3) walk_options_allow [OF assms(1,2)]])

end
