(* ===== verification/NoPanic.thy ===== *)
theory NoPanic
  imports Collect
begin

text \<open>
  When the collector does not panic. A panic in a worker ends the whole exporter, so the
  conditions are stated on the configuration (\<open>module_safe\<close>) and on the answers of the device
  (\<open>pdu_ok\<close>), and every function from the index decoder to \<open>collect\<close> is shown to return under
  them. The locale \<open>wire_scraper\<close> is the contract of a scraper that only hands out such answers.
\<close>

section \<open>The conditions\<close>

definition pdu_ok :: "SnmpPDU \<Rightarrow> bool" where
  "pdu_ok pdu \<longleftrightarrow> pdu_typed pdu \<and> pdu_Name pdu \<noteq> [] \<and> wire_oid (oidToList (tl (pdu_Name pdu))) \<and>
     (pdu_Type pdu = ObjectIdentifier \<longrightarrow> pdu_Value pdu \<noteq> GString []) \<and>
     (\<forall>v. pdu_Value pdu = GBytes v \<longrightarrow> length v < 2 ^ 32)"

definition index_safe :: "Index \<Rightarrow> bool" where
  "index_safe i \<longleftrightarrow> index_Type i \<in> set known_index_types \<and> 0 \<le> index_FixedSize i"

definition lookup_safe :: "Lookup \<Rightarrow> bool" where
  "lookup_safe l \<longleftrightarrow> lookup_Type l \<in> set text_types"

definition value_types :: "string list" where
  "value_types = [''counter'', ''gauge'', ''Float'', ''Double'', ''DateAndTime'', ''ParseDateAndTime'',
     ''NTPTimeStamp'', ''EnumAsInfo'', ''EnumAsStateSet'', ''Bits'']"

definition metric_safe :: "Metric \<Rightarrow> bool" where
  "metric_safe m \<longleftrightarrow> list_all index_safe (metric_Indexes m) \<and> list_all lookup_safe (metric_Lookups m) \<and>
     (metric_Type m \<in> set value_types \<or> metric_Type m \<in> set text_types) \<and>
     (metric_Type m = ''Bits'' \<longrightarrow> list_all (\<lambda>e. 0 \<le> fst e) (metric_EnumValues m)) \<and>
     list_all (\<lambda>e. list_all (\<lambda>x. extract_Regex x \<noteq> None) (snd e)) (metric_RegexpExtracts m)"

definition module_safe :: "runtime \<Rightarrow> Module \<Rightarrow> bool" where
  "module_safe rt module \<longleftrightarrow> list_all metric_safe (module_Metrics module) \<and>
     Retries (module_WalkParams module) \<noteq> None \<and>
     list_all (\<lambda>f. list_all (\<lambda>val. \<forall>s. matchString rt val s \<noteq> None) (filter_Values f))
       (module_Filters module)"

section \<open>Text and values\<close>

lemma pdu_ok_text:
  "pdu_ok pdu \<Longrightarrow> t \<in> set text_types \<Longrightarrow> \<exists>s mx'. pduValueAsString rt pdu t h mx = Inr (s, mx')"
  by (rule pduValueAsString_total) (auto simp: pdu_ok_def)

lemma pdu_ok_value: "pdu_ok pdu \<Longrightarrow> \<exists>x. getPduValue rt pdu = Inr x"
  by (rule getPduValue_total) (simp add: pdu_ok_def)

lemma combined_target_text:
  "map_of combinedTypeMapping ty = Some m \<Longrightarrow> map_of m i = Some t \<Longrightarrow> t \<in> set text_types"
  by (drule (1) combined_targets) (auto simp: text_types_def known_index_types_def)

lemma display_text: "''DisplayString'' \<in> set text_types" "''OctetString'' \<in> set text_types"
  by (simp_all add: text_types_def known_index_types_def)

section \<open>Labels\<close>

lemma wire_oid_remaining:
  assumes "indexOidsAsString oids ty fs im ev = Inr (str, used, rest)" "wire_oid oids"
  shows "wire_oid rest"
proof -
  from indexOidsAsString_conserves [OF assms(1)] obtain k where
    "used @ rest = oids @ replicate k 0" by (auto simp: conserves_def)
  moreover have "wire_oid (oids @ replicate k 0)"
    using assms(2) by (auto simp: wire_oid_def list_all_iff)
  ultimately have "wire_oid (used @ rest)" by simp
  then show ?thesis by simp
qed

lemma index_labels_total:
  assumes "list_all index_safe is" "wire_oid oids"
  shows "\<exists>r. index_labels is oids ls lo = Inr r"
  using assms
proof (induction "is" arbitrary: oids ls lo)
  case (Cons i "is")
  from Cons.prems(1) have i: "index_Type i \<in> set known_index_types" "0 \<le> index_FixedSize i"
    by (simp_all add: index_safe_def)
  from indexOidsAsString_total [OF Cons.prems(2) i(2,1)] obtain r where
    r: "indexOidsAsString oids (index_Type i) (index_FixedSize i) (index_Implied i)
      (index_EnumValues i) = Inr r" by blast
  obtain str used rest where p: "r = (str, used, rest)" by (cases r)
  from wire_oid_remaining [OF r [unfolded p] Cons.prems(2)] Cons
  have "\<exists>r. index_labels is rest (AList.update (index_Labelname i) (toValidUTF8 str) ls)
      (lo(index_Labelname i \<mapsto> used)) = Inr r" by simp
  with r p show ?case by simp
qed simp

lemma lookup_type_total:
  assumes "lookup_safe lk" "\<forall>p \<in> ran m. pdu_ok p"
  shows "\<exists>t. lookup_type rt m lk lo = Inr t \<and> t \<in> set text_types"
proof (cases "map_of combinedTypeMapping (lookup_Type lk)")
  case None
  with assms(1) show ?thesis by (simp add: lookup_type_def lookup_safe_def)
next
  case (Some tm)
  show ?thesis
  proof (cases "m (lookup_key (getPrevOid (lookup_Oid lk)) (lookup_Labels lk) lo)")
    case None
    with Some assms(1) show ?thesis by (simp add: lookup_type_def lookup_safe_def)
  next
    case p: (Some p)
    then have "pdu_ok p" using assms(2) by (auto intro: ranI)
    then obtain x where "getPduValue rt p = Inr x" using pdu_ok_value by blast
    with Some p assms(1) combined_target_text [OF Some] show ?thesis
      by (auto simp: lookup_type_def lookup_safe_def split: option.split)
  qed
qed

lemma lookup_step_total:
  assumes "lookup_safe lk" "\<forall>p \<in> ran m. pdu_ok p"
  shows "\<exists>st'. lookup_step rt m lk st = Inr st'"
proof -
  obtain ls lo mx where st: "st = (ls, lo, mx)" by (cases st)
  obtain t where t: "lookup_type rt m lk lo = Inr t" "t \<in> set text_types"
    using lookup_type_total [OF assms] by blast
  show ?thesis
  proof (cases "m (lookup_key (lookup_Oid lk) (lookup_Labels lk) lo)")
    case None
    then show ?thesis by (simp add: lookup_step_def st)
  next
    case (Some p)
    then have "pdu_ok p" using assms(2) by (auto intro: ranI)
    then obtain s mx' where "pduValueAsString rt p t (lookup_DisplayHint lk) mx = Inr (s, mx')"
      using pdu_ok_text t(2) by blast
    with Some t show ?thesis
      by (cases "t = ''EnumAsInfo'' \<and> lookup_EnumValues lk \<noteq> []")
        (auto simp: lookup_step_def st Let_def)
  qed
qed

lemma indexesToLabels_total:
  assumes "metric_safe metric" "wire_oid oids" "\<forall>p \<in> ran m. pdu_ok p"
  shows "\<exists>ls mx'. indexesToLabels rt oids metric m mx = Inr (ls, mx')"
proof -
  from assms(1,2) obtain ls lo where
    i: "index_labels (metric_Indexes metric) oids [] Map.empty = Inr (ls, lo)"
    using index_labels_total by (metis metric_safe_def surj_pair)
  have "\<exists>t. foldG (lookup_step rt m) (metric_Lookups metric) (ls, lo, mx) = Inr t \<and> True"
    using assms(1,3) lookup_step_total
    by (intro foldG_total) (auto simp: metric_safe_def list_all_iff)
  with i show ?thesis by (auto simp: indexesToLabels_def)
qed

section \<open>Samples\<close>

lemma regex_value_total:
  "list_all (\<lambda>x. extract_Regex x \<noteq> None) es \<Longrightarrow> \<exists>r. regex_value rt es s = Inr r"
  by (induction es) (auto split: option.split)

lemma mapG_total: "(\<And>x. x \<in> set xs \<Longrightarrow> \<exists>y. f x = Inr y) \<Longrightarrow> \<exists>ys. mapG f xs = Inr ys"
  by (induction xs) fastforce+

lemma applyRegexExtracts_total:
  assumes "metric_safe metric"
  shows "\<exists>ss. applyRegexExtracts rt metric s ns vs = Inr ss"
proof -
  have "\<exists>r. extract_samples rt metric s ns vs e = Inr r" if "e \<in> set (metric_RegexpExtracts metric)" for e
    using that assms regex_value_total [of "snd e" rt s]
    by (auto simp: extract_samples_def metric_safe_def list_all_iff split: prod.split)
  from mapG_total [OF this] show ?thesis by (auto simp: applyRegexExtracts_def)
qed

lemma bits_metric_total:
  assumes "list_all (\<lambda>e. 0 \<le> fst e) (metric_EnumValues metric)"
  shows "\<exists>ss. bits_metric rt metric v ns vs = Inr ss"
proof -
  have "\<exists>x. bit_sample rt metric bs ns vs e = Inr x" if "e \<in> set (metric_EnumValues metric)" for bs e
  proof -
    obtain k t where e: "e = (k, t)" by (cases e)
    then have "0 \<le> k" using that assms by (auto simp: list_all_iff)
    with bit_of_nat [of bs "nat k"] show ?thesis by (simp add: e bit_sample_def)
  qed
  then show ?thesis by (cases v) (simp_all add: bits_metric_def mapG_total)
qed

lemma string_type_total:
  assumes "metric_Type metric \<in> set text_types" "\<forall>p \<in> ran m. pdu_ok p"
  shows "\<exists>t. string_type rt oids metric m = Inr t \<and> t \<in> set text_types"
proof (cases "map_of combinedTypeMapping (metric_Type metric)")
  case None
  with assms(1) show ?thesis by (simp add: string_type_def)
next
  case (Some tm)
  show ?thesis
  proof (cases "m (getPrevOid (metric_Oid metric) @ ''.'' @ listToOid oids)")
    case None
    with Some display_text show ?thesis by (simp add: string_type_def)
  next
    case p: (Some p)
    then have "pdu_ok p" using assms(2) by (auto intro: ranI)
    then obtain x where "getPduValue rt p = Inr x" using pdu_ok_value by blast
    with Some p display_text combined_target_text [OF Some] show ?thesis
      by (auto simp: string_type_def split: option.split)
  qed
qed

lemma string_samples_total:
  assumes "metric_safe metric" "metric_Type metric \<in> set text_types" "pdu_ok pdu" "\<forall>p \<in> ran m. pdu_ok p"
  shows "\<exists>r. string_samples rt oids pdu metric m ls ns vs mx = Inr r"
proof -
  obtain t where t: "string_type rt oids metric m = Inr t" "t \<in> set text_types"
    using string_type_total [OF assms(2,4)] by blast
  from pdu_ok_text [OF assms(3) t(2)] obtain s mx' where
    s: "pduValueAsString rt pdu t (metric_DisplayHint metric) mx = Inr (s, mx')" by blast
  obtain ss where "applyRegexExtracts rt metric s ns vs = Inr ss"
    using applyRegexExtracts_total [OF assms(1)] by blast
  with t s show ?thesis by (simp add: string_samples_def)
qed

lemma pduToSamples_total:
  assumes "metric_safe metric" "pdu_ok pdu" "wire_oid oids" "\<forall>p \<in> ran m. pdu_ok p"
  shows "\<exists>r. pduToSamples rt oids pdu metric m mx = Inr r"
proof -
  obtain ls mx1 where ls: "indexesToLabels rt oids metric m mx = Inr (ls, mx1)"
    using indexesToLabels_total [OF assms(1,3,4)] by blast
  obtain x where x: "getPduValue rt pdu = Inr x" using pdu_ok_value [OF assms(2)] by blast
  obtain s mx2 where dt: "pduValueAsString rt pdu ''DisplayString'' [] mx1 = Inr (s, mx2)"
    using pdu_ok_text [OF assms(2) display_text(1)] by blast
  have bits: "\<exists>ss. bits_metric rt metric (pdu_Value pdu) ns vs = Inr ss"
    if "metric_Type metric = ''Bits''" for ns vs
    using that assms(1) bits_metric_total by (simp add: metric_safe_def)
  have str: "\<exists>r. string_samples rt oids pdu metric m ls ns vs mx1 = Inr r"
    if "metric_Type metric \<notin> set value_types" for ns vs
    using that assms string_samples_total by (simp add: metric_safe_def)
  show ?thesis
  proof (cases "metric_Type metric \<in> set value_types")
    case False
    with str show ?thesis
      by (simp add: pduToSamples_def ls x Let_def value_types_def)
  next
    case True
    then show ?thesis
      unfolding value_types_def set_simps insert_iff empty_iff
      by (elim disjE)
        (use bits in \<open>simp_all add: pduToSamples_def ls x dt Let_def parseDateAndTimeWithPattern_def\<close>)
  qed
qed

section \<open>Modules\<close>

lemma index_pdus_total: "\<forall>pdu \<in> set pdus. pdu_Name pdu \<noteq> [] \<Longrightarrow> \<exists>t. index_pdus pdus m = Inr t"
  by (induction pdus m rule: index_pdus.induct) auto

lemma wire_oid_suffix: "wire_oid (a @ b) \<Longrightarrow> wire_oid b"
  by simp

lemma process_pdus_total:
  assumes "list_all metric_safe (module_Metrics module)" "\<forall>pdu \<in> set pdus. pdu_ok pdu"
    and "range_pdus_ok env"
  shows "\<exists>r. process_pdus rt env module pdus mx = Inr r"
proof -
  let ?tree = "buildMetricTree (module_Metrics module)"
  have "\<forall>pdu \<in> set pdus. pdu_Name pdu \<noteq> []" using assms(2) by (simp add: pdu_ok_def)
  from index_pdus_total [OF this] obtain t where t: "index_pdus pdus [] = Inr t" by blast
  have ok: "\<forall>p \<in> ran (map_of t). pdu_ok p"
    using index_pdus_from [OF t] assms(2) by (auto simp: ran_def dest: map_of_SomeD)
  have "\<exists>st'. match_pdu rt ?tree (map_of t) e st = Inr st' \<and> True"
    if e: "e \<in> set (range_pdus env t)" for e st
  proof (cases "find_metric ?tree (oidToList (fst e))")
    case None
    then show ?thesis by (cases e; cases st) (simp add: match_pdu_def)
  next
    case (Some mr)
    obtain m rest where mr: "mr = (m, rest)" by (cases mr)
    have member: "(fst e, snd e) \<in> set t" using e assms(3) by (simp add: range_pdus_ok_def)
    from index_pdus_from [OF t member] assms(2) have pok: "pdu_ok (snd e)" by simp
    have "map_of (rev (map pdu_entry pdus)) (fst e) = Some (snd e)"
      by (rule index_pdus_members [OF t, THEN iffD1, OF member])
    then have "fst e = tl (pdu_Name (snd e))" by (auto simp: pdu_entry_def dest!: map_of_SomeD)
    moreover from Some mr obtain p where "oidToList (fst e) = p @ rest"
      by (auto simp: find_metric_Some)
    ultimately have "wire_oid (p @ rest)" using pok by (simp add: pdu_ok_def)
    then have "wire_oid rest" by (rule wire_oid_suffix)
    moreover have "metric_safe m"
      using find_metric_member Some mr assms(1) by (auto simp: list_all_iff)
    ultimately have "\<exists>r. pduToSamples rt rest (snd e) m (map_of t) (snd st) = Inr r"
      using pok ok by (intro pduToSamples_total)
    with Some mr show ?thesis by (cases e; cases st) (auto simp: match_pdu_def)
  qed
  then have "\<exists>r. foldG (match_pdu rt ?tree (map_of t)) (range_pdus env t) ([], mx) = Inr r \<and> True"
    by (intro foldG_total) simp_all
  with t show ?thesis by (simp add: process_pdus_def)
qed

section \<open>Scrapers that hand out well-formed variables\<close>

lemma matches_any_total:
  assumes "pdu_ok pdu" "list_all (\<lambda>val. \<forall>s. matchString rt val s \<noteq> None) vals"
  shows "\<exists>r. matches_any rt pdu vals mx = Inr r"
  using assms(2)
proof (induction vals arbitrary: mx)
  case Nil
  show ?case unfolding matches_any.simps by blast
next
  case (Cons val vals)
  from pdu_ok_text [OF assms(1) display_text(1)] obtain s mx' where
    s: "pduValueAsString rt pdu ''DisplayString'' [] mx = Inr (s, mx')" by blast
  from Cons.prems obtain b where b: "matchString rt val s = Some b" by auto
  show ?case
  proof (cases b)
    case True
    with b s have "matches_any rt pdu (val # vals) mx = Inr (True, mx')" by simp
    then show ?thesis by blast
  next
    case False
    with b s have "matches_any rt pdu (val # vals) mx = matches_any rt pdu vals mx'" by simp
    with Cons show ?thesis by simp
  qed
qed

lemma filterAllowedIndices_total:
  assumes "\<forall>pdu \<in> set pdus. pdu_ok pdu"
    and "list_all (\<lambda>val. \<forall>s. matchString rt val s \<noteq> None) (filter_Values flt)"
  shows "\<exists>r. filterAllowedIndices rt flt pdus al mx = Inr r"
  using assms(1)
proof (induction pdus arbitrary: al mx)
  case (Cons pdu pdus)
  then obtain found mx' where "matches_any rt pdu (filter_Values flt) mx = Inr (found, mx')"
    using matches_any_total [OF _ assms(2)] by (metis list.set_intros(1) surj_pair)
  with Cons show ?case by simp
qed simp

locale wire_scraper =
  fixes snmp :: "'c SNMPScraper"
    and inv :: "'c \<Rightarrow> bool"
  assumes Get_inv: "inv c \<Longrightarrow> inv (snd (Get snmp oids c))"
    and Get_ok: "inv c \<Longrightarrow> fst (Get snmp oids c) = Inr packet \<Longrightarrow>
      v \<in> set (packet_Variables packet) \<Longrightarrow> not_supported v \<or> pdu_ok v"
    and WalkAll_inv: "inv c \<Longrightarrow> inv (snd (WalkAll snmp oid c))"
    and WalkAll_ok: "inv c \<Longrightarrow> fst (WalkAll snmp oid c) = Inr pdus \<Longrightarrow> v \<in> set pdus \<Longrightarrow> pdu_ok v"
    and SetOptions_ok: "inv c \<Longrightarrow> (\<And>g. \<exists>g'. f g = Inr g') \<Longrightarrow>
      \<exists>c'. SetOptions snmp [f] c = Inr c' \<and> inv c'"
begin

lemma get_loop_safe:
  assumes "get_loop snmp target version n getOids rs c = Some ((rs', err), c')" "0 < n"
    and "inv c" "\<forall>v \<in> set rs. pdu_ok v"
  shows "inv c' \<and> (\<forall>v \<in> set rs'. pdu_ok v)"
  using assms(1,3,4)
proof (induction getOids arbitrary: rs c rule: length_induct)
  case (1 getOids)
  show ?case
  proof (cases "getOids = []")
    case True
    with "1.prems" show ?thesis by (simp add: get_loop.simps)
  next
    case False
    let ?oids = "min (length getOids) n"
    obtain r c1 where g: "Get snmp (take ?oids getOids) c = (r, c1)" by fastforce
    with Get_inv [OF "1.prems"(2), of "take ?oids getOids"] have c1: "inv c1" by simp
    have shorter: "length (drop ?oids getOids) < length getOids"
      using False assms(2) by (cases getOids) auto
    note IH = "1.IH" [rule_format, OF shorter]
    show ?thesis
    proof (cases r)
      case (Inl e)
      then have "get_loop snmp target version n getOids rs c = Some ((rs, Some e), c1)"
        using False g by (simp add: get_loop.simps [of _ _ _ _ getOids] Let_def)
      with "1.prems" c1 show ?thesis by simp
    next
      case (Inr packet)
      let ?rs = "rs @ filter (\<lambda>v. \<not> not_supported v) (packet_Variables packet)"
      have "not_supported v \<or> pdu_ok v" if "v \<in> set (packet_Variables packet)" for v
        using Get_ok [OF "1.prems"(2), of "take ?oids getOids"] g Inr that by simp
      then have new: "\<forall>v \<in> set ?rs. pdu_ok v" using "1.prems"(3) by auto
      have step: "get_loop snmp target version n getOids rs c =
         (if packet_Error packet = NoSuchName \<and> version = 1
          then get_loop snmp target version n (drop ?oids getOids) rs c1
          else if packet_Error packet \<noteq> NoError
          then Some ((rs, Some (ErrorStatus target (packet_Error packet))), c1)
          else get_loop snmp target version n (drop ?oids getOids) ?rs c1)"
        unfolding get_loop.simps [of _ _ _ _ getOids] Let_def using False g Inr by simp
      consider "get_loop snmp target version n (drop ?oids getOids) rs c1 = Some ((rs', err), c')"
        | "rs' = rs" "c' = c1"
        | "get_loop snmp target version n (drop ?oids getOids) ?rs c1 = Some ((rs', err), c')"
        using "1.prems"(1) unfolding step by (auto split: if_splits)
      then show ?thesis
      proof cases
        case 1
        from IH 1 c1 "1.prems"(3) show ?thesis by blast
      next
        case 2
        with c1 "1.prems"(3) show ?thesis by simp
      next
        case 3
        from IH 3 c1 new show ?thesis by blast
      qed
    qed
  qed
qed

lemma walk_loop_safe:
  "walk_loop snmp subtrees rs c = ((rs', err), c') \<Longrightarrow> inv c \<Longrightarrow> \<forall>v \<in> set rs. pdu_ok v \<Longrightarrow>
   inv c' \<and> (\<forall>v \<in> set rs'. pdu_ok v)"
proof (induction subtrees arbitrary: rs c)
  case (Cons oid subtrees)
  obtain r c1 where w: "WalkAll snmp oid c = (r, c1)" by fastforce
  with WalkAll_inv [OF Cons.prems(2), of oid] have c1: "inv c1" by simp
  show ?case
  proof (cases r)
    case (Inl e)
    with Cons.prems w c1 show ?thesis by simp
  next
    case (Inr pdus)
    with WalkAll_ok [OF Cons.prems(2), of oid pdus] w have "\<forall>v \<in> set pdus. pdu_ok v" by simp
    with Cons.prems(3) have "\<forall>v \<in> set (rs @ pdus). pdu_ok v" by auto
    with Cons.IH [OF _ c1] Cons.prems(1) w Inr show ?thesis by simp
  qed
qed simp

lemma apply_filter_safe:
  assumes "inv c" "list_all (\<lambda>val. \<forall>s. matchString rt val s \<noteq> None) (filter_Values flt)"
  shows "\<exists>s. apply_filter snmp rt flt (st, mx, c) = Inr s \<and> inv (snd (snd s))"
proof -
  obtain r c1 where w: "WalkAll snmp (filter_Oid flt) c = (r, c1)" by fastforce
  with WalkAll_inv [OF assms(1), of "filter_Oid flt"] have c1: "inv c1" by simp
  show ?thesis
  proof (cases r)
    case (Inl e)
    with w c1 show ?thesis by (simp add: apply_filter_def)
  next
    case (Inr pdus)
    with WalkAll_ok [OF assms(1), of "filter_Oid flt" pdus] w have "\<forall>v \<in> set pdus. pdu_ok v" by simp
    from filterAllowedIndices_total [OF this assms(2)] obtain al mx' where
      "filterAllowedIndices rt flt pdus [] mx = Inr (al, mx')" by (metis surj_pair)
    with Inr w c1 show ?thesis by (simp add: apply_filter_walked)
  qed
qed

lemma ScrapeTarget_safe:
  assumes "inv c" "list_all (\<lambda>f. list_all (\<lambda>val. \<forall>s. matchString rt val s \<noteq> None) (filter_Values f))
      (module_Filters module)"
  shows "\<exists>pdus err mx' c'. ScrapeTarget snmp rt target auth module mx c = Some (Inr ((pdus, err), mx', c'))
    \<and> inv c' \<and> (\<forall>v \<in> set pdus. pdu_ok v)"
proof -
  have "\<exists>s. foldG (apply_filter snmp rt) (module_Filters module) (filter_init module, mx, c) = Inr s
      \<and> inv (snd (snd s))"
  proof (rule foldG_total [where P = "\<lambda>s. inv (snd (snd s))"])
    show "inv (snd (snd (filter_init module, mx, c)))" using assms(1) by simp
  next
    fix f and s :: "filter_state \<times> Metrics \<times> 'c"
    assume "f \<in> set (module_Filters module)" "inv (snd (snd s))"
    with assms(2) apply_filter_safe [of "snd (snd s)" rt f "fst s" "fst (snd s)"]
    show "\<exists>t. apply_filter snmp rt f s = Inr t \<and> inv (snd (snd t))"
      by (simp add: list_all_iff)
  qed
  then obtain st mx1 c1 where
    f: "foldG (apply_filter snmp rt) (module_Filters module) (filter_init module, mx, c) = Inr (st, mx1, c1)"
    and c1: "inv c1" by auto
  obtain rs e c2 where
    g: "get_loop snmp target (auth_Version auth) (maxOids_of auth module)
        (apply_targets st (module_Get module)) [] c1 = Some ((rs, e), c2)"
    using get_loop_total [OF maxOids_pos] by (metis surj_pair)
  from get_loop_safe [OF g maxOids_pos c1] have rs: "inv c2" "\<forall>v \<in> set rs. pdu_ok v" by simp_all
  show ?thesis
  proof (cases e)
    case (Some err)
    with f g rs show ?thesis by (simp add: ScrapeTarget_def scrape_requests_def)
  next
    case None
    obtain rs' err c3 where w: "walk_loop snmp (newWalk st) rs c2 = ((rs', err), c3)"
      by (metis surj_pair)
    from walk_loop_safe [OF w rs] f g w None show ?thesis
      by (simp add: ScrapeTarget_def scrape_requests_def)
  qed
qed

lemma collect_safe:
  assumes "inv c" "module_safe rt (snd nm)" "range_pdus_ok env"
  shows "\<exists>out mx' c'. collect snmp rt env target auth nm mx c = Some (Inr (out, mx', c')) \<and> inv c'"
proof -
  obtain name module where nm: "nm = (name, module)" by (cases nm)
  with assms(2) have m: "list_all metric_safe (module_Metrics module)"
    "Retries (module_WalkParams module) \<noteq> None"
    "list_all (\<lambda>f. list_all (\<lambda>val. \<forall>s. matchString rt val s \<noteq> None) (filter_Values f))
      (module_Filters module)"
    by (simp_all add: module_safe_def)
  have "\<exists>g'. walk_options (module_WalkParams module) g = Inr g'" for g
    using m(2) by (auto simp: walk_options_def Let_def)
  with SetOptions_ok [OF assms(1)] obtain c1 where
    o: "SetOptions snmp [walk_options (module_WalkParams module)] c = Inr c1" "inv c1" by blast
  from ScrapeTarget_safe [OF o(2) m(3)] obtain pdus err mx1 c2 where
    s: "ScrapeTarget snmp rt target auth module mx c1 = Some (Inr ((pdus, err), mx1, c2))"
    and c2: "inv c2" and ok: "\<forall>v \<in> set pdus. pdu_ok v" by blast
  from process_pdus_total [OF m(1) ok assms(3)] obtain samples mx2 where
    "process_pdus rt env module pdus (count_packets env c1 c2 mx1) = Inr (samples, mx2)"
    by (metis surj_pair)
  with s o(1) c2 nm show ?thesis by (cases err) (simp_all add: collect_def Let_def)
qed

text \<open>The pool as \<open>Collect\<close> sets it up never crashes.\<close>

definition worker_inv :: "'c worker \<Rightarrow> bool" where
  "worker_inv w = (case w of Idle c \<Rightarrow> inv c | Busy m c \<Rightarrow> inv c | _ \<Rightarrow> True)"

lemma pool_safe:
  assumes "reachable start (\<lambda>nm mx c. collect snmp rt env target auth nm mx c) coll metrics s"
    and "\<And>i c. start i = Inr c \<Longrightarrow> inv c"
    and "\<forall>nm \<in> set (coll_modules coll). module_safe rt (snd nm)" "range_pdus_ok env"
  shows "crashed s = None \<and> (\<forall>w \<in> set (workers s). worker_inv w)"
  using assms(1)
proof (induction rule: reachable.induct)
  case init
  then show ?case by (auto simp: pool_init_def worker_inv_def)
next
  case (step s t)
  have upd: "\<forall>w \<in> set ((workers s)[i := w']). worker_inv w" if "worker_inv w'" for i w'
    using step.IH that set_update_subset_insert [of "workers s" i w'] by auto
  have at: "worker_inv (workers s ! i)" if "i < length (workers s)" for i
    using step.IH that by simp
  have scraped: "\<exists>out mx' c'. collect snmp rt env target auth m mx c = Some (Inr (out, mx', c')) \<and> inv c'"
    if i: "i < length (workers s)" "workers s ! i = Busy m c" for i m c mx
  proof -
    have "busy (workers s) = add_mset m (busy ((workers s)[i := Exited]))"
      using i busy_update [OF i(1), of Exited] by simp
    then have "m \<in># busy (workers s)" by simp
    then have "m \<in># accounted s" by (simp add: accounted_def)
    with reachable_accounted [OF step.hyps(1)] have "m \<in> set (coll_modules coll)" by simp
    with assms(3) have "module_safe rt (snd m)" by blast
    moreover have "inv c" using at [OF i(1)] i(2) by (simp add: worker_inv_def)
    ultimately show ?thesis by (intro collect_safe assms(4))
  qed
  from step.hyps(2) show ?case
  proof (cases rule: pool_step.cases)
    case (fail i out)
    with step.IH upd [of Exited] show ?thesis by (simp add: worker_inv_def)
  next
    case (ready i c)
    with step.IH assms(2) upd [of "Idle c"] show ?thesis by (simp add: worker_inv_def)
  next
    case (send m ms i c)
    with at [of i] step.IH upd [of "Busy m c"] show ?thesis by (simp add: worker_inv_def)
  next
    case (finish i m c out mx c')
    from scraped [OF finish(3,4), of "pool_metrics s"] finish(5) have "inv c'" by simp
    with finish(1) step.IH upd [of "Idle c'"] show ?thesis by (simp add: worker_inv_def)
  next
    case (crash i m c p)
    from scraped [OF crash(3,4), of "pool_metrics s"] crash(5) show ?thesis by simp
  next
    case (leave i c)
    with step.IH upd [of Exited] show ?thesis by (simp add: worker_inv_def)
  qed (use step.IH in simp_all)
qed

end

text \<open>The mock, when the test gives it such responses.\<close>

definition mock_ok :: "mockSNMPScraper \<Rightarrow> bool" where
  "mock_ok m \<longleftrightarrow> (\<forall>oid p. GetResponses m oid = Some p \<longrightarrow> not_supported p \<or> pdu_ok p) \<and>
     (\<forall>oid pdus. WalkResponses m oid = Some pdus \<longrightarrow> (\<forall>p \<in> set pdus. pdu_ok p))"

lemma mock_response_ok: "mock_ok m \<Longrightarrow> not_supported (mock_response m oid) \<or> pdu_ok (mock_response m oid)"
  by (auto simp: mock_response_def mock_ok_def not_supported_def split: option.split)

interpretation mock: wire_scraper mock_scraper mock_ok
proof unfold_locales
  fix c oids packet v
  assume c: "mock_ok c" and g: "fst (Get mock_scraper oids c) = Inr packet"
    and v: "v \<in> set (packet_Variables packet)"
  from g v have "v \<in> mock_response c ` set oids"
    by (auto simp: mock_scraper_def mock_Get_eq)
  with mock_response_ok [OF c] show "not_supported v \<or> pdu_ok v" by auto
next
  fix c oid pdus v
  assume "mock_ok c" "fst (WalkAll mock_scraper oid c) = Inr pdus" "v \<in> set pdus"
  then show "pdu_ok v"
    by (auto simp: mock_scraper_def mock_WalkAll_def mock_ok_def Let_def split: option.splits)
qed (simp_all add: mock_scraper_def mock_Get_eq mock_WalkAll_def mock_ok_def Let_def)

text \<open>The gosnmp wrapper, over a library that decodes only such variables.\<close>

definition lib_ok :: "'n gosnmp_lib \<Rightarrow> bool" where
  "lib_ok lib \<longleftrightarrow>
     (\<forall>g oids n packet. fst (lib_Get lib g oids n) = Inr packet \<longrightarrow>
        (\<forall>v \<in> set (packet_Variables packet). not_supported v \<or> pdu_ok v)) \<and>
     (\<forall>g oid n pdus. fst (lib_WalkAll lib g oid n) = Inr pdus \<longrightarrow> (\<forall>v \<in> set pdus. pdu_ok v)) \<and>
     (\<forall>g oid n pdus. fst (lib_BulkWalkAll lib g oid n) = Inr pdus \<longrightarrow> (\<forall>v \<in> set pdus. pdu_ok v))"

lemma wrap_result_Inr [simp]: "wrap_result g r = Inr a \<longleftrightarrow> r = Inr a"
  by (simp add: wrap_result_def split: sum.split)

lemma gosnmp_wire_scraper:
  assumes "lib_ok lib"
  shows "wire_scraper (gosnmp_scraper lib) (\<lambda>_. True)"
proof unfold_locales
  fix c :: "GoSNMP \<times> 'a" and oids packet v
  assume r: "fst (Get (gosnmp_scraper lib) oids c) = Inr packet" and v: "v \<in> set (packet_Variables packet)"
  obtain g n where "c = (g, n)" by (cases c)
  with r have "fst (lib_Get lib g oids n) = Inr packet"
    by (simp add: gosnmp_scraper_def wrapper_Get_def case_prod_beta)
  with assms v show "not_supported v \<or> pdu_ok v" unfolding lib_ok_def by blast
next
  fix c :: "GoSNMP \<times> 'a" and oid pdus v
  assume r: "fst (WalkAll (gosnmp_scraper lib) oid c) = Inr pdus" and v: "v \<in> set pdus"
  obtain g n where "c = (g, n)" by (cases c)
  with r have "fst (lib_WalkAll lib g oid n) = Inr pdus \<or> fst (lib_BulkWalkAll lib g oid n) = Inr pdus"
    by (simp add: gosnmp_scraper_def wrapper_WalkAll_def case_prod_beta split: if_splits)
  with assms v show "pdu_ok v" unfolding lib_ok_def by blast
next
  fix f :: "GoSNMP \<Rightarrow> GoSNMP go" and c :: "GoSNMP \<times> 'a"
  assume "\<And>g. \<exists>g'. f g = Inr g'"
  then obtain g' where "f (fst c) = Inr g'" by blast
  then show "\<exists>c'. SetOptions (gosnmp_scraper lib) [f] c = Inr c' \<and> True"
    by (cases c) (simp add: gosnmp_scraper_def wrapper_SetOptions_def)
qed simp_all

end
