(* ===== verification/GenerateFacts.thy ===== *)
theory GenerateFacts
  imports Generate NoPanic
begin

text \<open>
  What a generated module is made of: every metric comes from a usable node of the tree, with its
  OID and a type the exporter handles, and what it needs is in the OIDs the module fetches.
\<close>

section \<open>Where the metrics come from\<close>

lemma foldE_invariant:
  assumes "foldE f xs s = Inr t" and "P s"
    and "\<And>x s t. x \<in> set xs \<Longrightarrow> P s \<Longrightarrow> f x s = Inr t \<Longrightarrow> P t"
  shows "P t"
  using assms
proof (induction xs arbitrary: s)
  case (Cons x xs)
  then obtain u where u: "f x s = Inr u" "foldE f xs u = Inr t" by (auto split: sum.splits)
  with Cons.prems have "P u" by auto
  with u Cons show ?case by (meson list.set_intros(2))
qed simp

lemma fold_add_metric_Inl: "fold (add_metric h nm ovs) xs (Inl p) = Inl p"
  by (induction xs) (simp_all add: add_metric_def)

lemma fold_add_metric:
  "fold (add_metric h nm ovs) xs (Inr out) = Inr ms \<Longrightarrow> m \<in> set ms \<Longrightarrow>
   m \<in> set out \<or> (\<exists>s \<in> set xs. mib_metric h nm ovs s = Inr (Some m))"
proof (induction xs arbitrary: out)
  case (Cons x xs)
  show ?case
  proof (cases "mib_metric h nm ovs x")
    case (Inl p)
    with Cons.prems(1) show ?thesis by (simp add: add_metric_def [of h nm ovs x] fold_add_metric_Inl)
  next
    case (Inr r)
    with Cons.prems(1) have "fold (add_metric h nm ovs) xs (Inr (case r of None \<Rightarrow> out | Some m \<Rightarrow> out @ [m])) = Inr ms"
      by (simp add: add_metric_def [of h nm ovs x])
    from Cons.IH [OF this Cons.prems(2)] Inr show ?thesis by (cases r) auto
  qed
qed simp

lemma fold_walkNode: "fold (walkNode f) ts s = fold f (concat (map subtrees ts)) s"
  by (induction ts arbitrary: s) (simp_all add: walkNode_subtrees)

lemma usable_metrics_from:
  "usable_metrics h nm ovs metrics = Inr ms \<Longrightarrow> m \<in> set ms \<Longrightarrow>
   \<exists>s \<in> set metrics. \<exists>s' \<in> set (subtrees s). mib_metric h nm ovs s' = Inr (Some m)"
  unfolding usable_metrics_def fold_walkNode by (drule (1) fold_add_metric) auto

lemma mib_metric_Some:
  assumes "mib_metric h nm ovs s = Inr (Some m)"
  shows "metric_Oid m = oid_at h s \<and> metricType (n_Type (h (root s))) = Some (metric_Type m) \<and>
    metricAccess (n_Access (h (root s)))"
    "metric_indexes h nm (n_ImpliedIndex (h (root s))) [] [] [] (n_Indexes (h (root s))) =
      Inr (Some (metric_Indexes m))"
    "metric_Lookups m = []" "metric_RegexpExtracts m = []" "metric_EnumValues m = n_EnumValues (h (root s))"
  using assms by (clarsimp simp: mib_metric_def Let_def split: option.splits if_splits)+

text \<open>What the later phases keep of a metric.\<close>

definition from_metric :: "Metric \<Rightarrow> Metric \<Rightarrow> bool" where
  "from_metric m m' \<longleftrightarrow> metric_Oid m' = metric_Oid m \<and>
     (metric_Type m' = metric_Type m \<or> metric_Type m' = ''OctetString'')"

lemma from_metric_refl [simp]: "from_metric m m"
  by (simp add: from_metric_def)

lemma from_metric_trans: "from_metric a b \<Longrightarrow> from_metric b c \<Longrightarrow> from_metric a c"
  by (auto simp: from_metric_def)

lemma delete_labels_from: "from_metric m m' \<Longrightarrow> from_metric m (fold delete_label ls m')"
  by (induction ls arbitrary: m') (simp_all add: delete_label_def from_metric_def)

lemma apply_lookup_from:
  "apply_lookup h nm fm ra l (m, d, w) = Inr (m', d', w') \<Longrightarrow> from_metric m m'"
  by (auto simp: apply_lookup_def add_lookup_def Let_def from_metric_def split: if_splits option.splits)

lemma metric_lookups_from:
  assumes "metric_lookups h nm fm ls m (out, w) = Inr (out', w')"
  shows "\<exists>m'. out' = out @ [m'] \<and> from_metric m m'"
proof -
  from assms obtain m1 d where f: "foldE (apply_lookup h nm fm (concat (map SourceIndexes ls))) ls (m, [], w) =
      Inr (m1, d, w')" and o: "out' = out @ [fold delete_label d m1]"
    by (auto simp: metric_lookups_def split: sum.splits)
  have "(case (m1, d, w') of (m1, _) \<Rightarrow> from_metric m m1)"
    by (rule foldE_invariant [OF f]) (auto dest: apply_lookup_from intro: from_metric_trans)
  with o show ?thesis by (auto intro: delete_labels_from)
qed

lemma lookups_from:
  "foldE (metric_lookups h nm fm ls) ms (out, w) = Inr (out', w') \<Longrightarrow>
   \<exists>ms'. out' = out @ ms' \<and> list_all2 from_metric ms ms'"
proof (induction ms arbitrary: out w)
  case (Cons m ms)
  then obtain out1 w1 where 1: "metric_lookups h nm fm ls m (out, w) = Inr (out1, w1)"
    and 2: "foldE (metric_lookups h nm fm ls) ms (out1, w1) = Inr (out', w')"
    by (auto split: sum.splits)
  from metric_lookups_from [OF 1] Cons.IH [OF 2] show ?case by auto
qed simp

lemma check_inet_from:
  "fold (check_inet h nm) ms (out, w) = (out', w') \<Longrightarrow>
   \<exists>ms'. out' = out @ ms' \<and> list_all2 from_metric ms ms'"
proof (induction ms arbitrary: out w)
  case (Cons m ms)
  have "\<exists>m1 w1. check_inet h nm m (out, w) = (out @ [m1], w1) \<and> from_metric m m1"
    by (simp add: check_inet_def from_metric_def Let_def)
  then obtain m1 w1 where 1: "check_inet h nm m (out, w) = (out @ [m1], w1)" and "from_metric m m1"
    by blast
  with Cons show ?case by fastforce
qed simp

lemma override_metric_from: "from_metric m m' \<Longrightarrow> from_metric m (override_metric h nm e m')"
  by (auto simp: override_metric_def override_hint_def from_metric_def Let_def split: prod.splits option.splits)

lemma apply_overrides_from: "list_all2 from_metric ms (apply_overrides h nm ovs ms)"
proof -
  have "list_all2 from_metric ms (fold (\<lambda>e. map (override_metric h nm e)) ovs ms')"
    if "list_all2 from_metric ms ms'" for ms'
    using that by (induction ovs arbitrary: ms')
      (simp_all add: list_all2_conv_all_nth override_metric_from)
  then show ?thesis by (simp add: apply_overrides_def list_all2_refl)
qed

lemma split_walks_metrics: "split_walks ks out = Inr out' \<Longrightarrow> module_Metrics out' = module_Metrics out"
  by (induction ks arbitrary: out) (auto split: if_splits)

lemma finish_module_from:
  assumes "finish_module cfg h nm ms w = Inr out"
  shows "list_all2 from_metric ms (module_Metrics out)"
proof -
  obtain ms1 w1 where c: "fold (check_inet h nm) (map sanitize_indexes ms) ([], w) = (ms1, w1)" by fastforce
  from check_inet_from [OF c] have "list_all2 from_metric (map sanitize_indexes ms) ms1" by simp
  then have "list_all2 from_metric ms ms1"
    by (simp add: list_all2_conv_all_nth from_metric_def sanitize_indexes_def)
  moreover have "module_Metrics out = apply_overrides h nm (mc_Overrides cfg) ms1"
    using assms c by (auto simp: finish_module_def Let_def dest: split_walks_metrics)
  ultimately show ?thesis
    using list_all2_trans [of from_metric from_metric from_metric] from_metric_trans apply_overrides_from
    by metis
qed

text \<open>The phases of a module that is generated.\<close>

lemma generateConfigModule_Inr:
  assumes "generateConfigModule cfg node nm h0 = (Inr (Inr out), h)"
  obtains oids w ms ms' w' where
    "h = fold (override_type nm) (mc_Overrides cfg) h0"
    "to_walk h nm (mc_Walk cfg) = Inr oids"
    "find_top h node nm (minimizeOids oids) \<lparr>needToWalk = [], tableInstances = [], metricNodes = []\<rparr> = Inr w"
    "usable_metrics h nm (mc_Overrides cfg) (sort_key (oid_at h) (metricNodes w)) = Inr ms"
    "foldE (metric_lookups h nm (filter_map h nm (filters_Static (mc_Filters cfg))) (mc_Lookups cfg)) ms ([], w) =
       Inr (ms', w')"
    "finish_module cfg h nm ms' w' = Inr out"
proof -
  from assms have "h = fold (override_type nm) (mc_Overrides cfg) h0"
    by (simp add: generateConfigModule_def Let_def)
  moreover obtain oids where "to_walk h nm (mc_Walk cfg) = Inr oids"
    using assms calculation by (auto simp: generateConfigModule_def Let_def split: sum.splits)
  moreover obtain w where
    "find_top h node nm (minimizeOids oids) \<lparr>needToWalk = [], tableInstances = [], metricNodes = []\<rparr> = Inr w"
    using assms calculation by (cases "find_top h node nm (minimizeOids oids)
      \<lparr>needToWalk = [], tableInstances = [], metricNodes = []\<rparr>") (auto simp: generateConfigModule_def)
  moreover obtain ms where
    "usable_metrics h nm (mc_Overrides cfg) (sort_key (oid_at h) (metricNodes w)) = Inr ms"
    using assms calculation
    by (cases "usable_metrics h nm (mc_Overrides cfg) (sort_key (oid_at h) (metricNodes w))")
      (auto simp: generateConfigModule_def)
  moreover obtain ms' w' where
    "foldE (metric_lookups h nm (filter_map h nm (filters_Static (mc_Filters cfg))) (mc_Lookups cfg)) ms ([], w) =
       Inr (ms', w')"
    using assms calculation
    by (cases "foldE (metric_lookups h nm (filter_map h nm (filters_Static (mc_Filters cfg)))
      (mc_Lookups cfg)) ms ([], w)") (auto simp: generateConfigModule_def)
  moreover have "finish_module cfg h nm ms' w' = Inr out"
    using assms calculation by (auto simp: generateConfigModule_def Let_def)
  ultimately show ?thesis by (rule that)
qed

lemma generated_metric_from:
  assumes "generateConfigModule cfg node nm h0 = (Inr (Inr out), h)" and "m \<in> set (module_Metrics out)"
  shows "\<exists>oids w s s' m0. to_walk h nm (mc_Walk cfg) = Inr oids \<and>
    find_top h node nm (minimizeOids oids) \<lparr>needToWalk = [], tableInstances = [], metricNodes = []\<rparr> = Inr w \<and>
    s \<in> set (metricNodes w) \<and> s' \<in> set (subtrees s) \<and> mib_metric h nm (mc_Overrides cfg) s' = Inr (Some m0) \<and>
    from_metric m0 m"
  using assms(1)
proof (rule generateConfigModule_Inr)
  fix oids w ms ms' w'
  assume t: "to_walk h nm (mc_Walk cfg) = Inr oids"
    and f: "find_top h node nm (minimizeOids oids) \<lparr>needToWalk = [], tableInstances = [], metricNodes = []\<rparr> = Inr w"
    and u: "usable_metrics h nm (mc_Overrides cfg) (sort_key (oid_at h) (metricNodes w)) = Inr ms"
    and l: "foldE (metric_lookups h nm (filter_map h nm (filters_Static (mc_Filters cfg))) (mc_Lookups cfg)) ms ([], w) =
       Inr (ms', w')"
    and e: "finish_module cfg h nm ms' w' = Inr out"
  from lookups_from [OF l] have "list_all2 from_metric ms ms'" by simp
  with finish_module_from [OF e] have "list_all2 from_metric ms (module_Metrics out)"
    using list_all2_trans [of from_metric from_metric from_metric] from_metric_trans by metis
  with assms(2) obtain m0 where "m0 \<in> set ms" "from_metric m0 m"
    by (fastforce simp: list_all2_conv_all_nth in_set_conv_nth)
  with usable_metrics_from [OF u] t f show ?thesis by (metis set_sort)
qed

section \<open>Types\<close>

text \<open>The types of a metric, its indexes and its lookups are ones \<open>metricType\<close> answers.\<close>

definition types_known :: "Metric \<Rightarrow> bool" where
  "types_known m \<longleftrightarrow> metric_Type m \<in> set metric_types \<and>
     list_all (\<lambda>i. index_Type i \<in> set metric_types) (metric_Indexes m) \<and>
     list_all (\<lambda>l. lookup_Type l = [] \<or> lookup_Type l \<in> set metric_types) (metric_Lookups m)"

lemma octet_type: "''OctetString'' \<in> set metric_types"
  and inet_types: "''InetAddress'' \<in> set metric_types" "''InetAddressMissingSize'' \<in> set metric_types"
  by (simp_all add: metric_types_def combinedTypes_def)

lemma enum_type_known: "metricType t = Some t' \<Longrightarrow> enum_type n t' \<in> set metric_types"
  using metricType_Some [of t t'] by (auto simp: enum_type_def metric_types_def)

lemma drop_end_all: "drop_end k xs = Inr ys \<Longrightarrow> list_all P xs \<Longrightarrow> list_all P ys"
  by (auto simp: drop_end_def list_all_iff split: if_splits dest: in_set_takeD)

lemma combine_index_all: "combine_index p p2 t xs = Inr (Some ys) \<Longrightarrow> list_all P xs \<Longrightarrow> list_all P ys"
  by (auto simp: combine_index_def drop_end_all split: option.splits if_splits)

lemma metric_indexes_known:
  "metric_indexes h nm imp p p2 acc is = Inr (Some out) \<Longrightarrow>
   list_all (\<lambda>i. index_Type i \<in> set metric_types) acc \<Longrightarrow>
   list_all (\<lambda>i. index_Type i \<in> set metric_types) out"
proof (induction "is" arbitrary: p p2 acc)
  case (Cons i rest)
  from Cons.prems(1) obtain x t where x: "map_of nm i = Some x" and t: "metricType (n_Type (h (root x))) = Some t"
    by (auto split: option.splits)
  define index where "index = \<lparr>index_Labelname = i, index_Type = enum_type (h (root x)) t,
    index_FixedSize = n_FixedSize (h (root x)), index_Implied = (imp \<and> rest = []),
    index_EnumValues = n_EnumValues (h (root x))\<rparr>"
  have index: "index_Type index = enum_type (h (root x)) t" by (simp add: index_def)
  from Cons.prems(1) x t obtain r where c0: "combine_index p p2 (index_Type index) acc = Inr r"
    and r0: "(case r of None \<Rightarrow> Inr None
      | Some is \<Rightarrow> metric_indexes h nm imp (n_TextualConvention (h (root x))) p (is @ [index]) rest) = Inr (Some out)"
    by (auto simp: Let_def index_def [symmetric] index)
  then obtain acc' where c: "combine_index p p2 (index_Type index) acc = Inr (Some acc')"
    and r: "metric_indexes h nm imp (n_TextualConvention (h (root x))) p (acc' @ [index]) rest = Inr (Some out)"
    by (cases r) auto
  have "list_all (\<lambda>i. index_Type i \<in> set metric_types) (acc' @ [index])"
    using combine_index_all [OF c Cons.prems(2)] enum_type_known [OF t] index by simp
  with Cons.IH [OF r] show ?case by blast
qed simp

lemma mib_metric_known:
  assumes "mib_metric h nm ovs s = Inr (Some m)"
  shows "types_known m"
proof -
  note m = mib_metric_Some [OF assms]
  from m(1) have "metric_Type m \<in> set metric_types" by (auto intro: metricType_Some)
  moreover have "list_all (\<lambda>i. index_Type i \<in> set metric_types) (metric_Indexes m)"
    by (rule metric_indexes_known [OF m(2)]) simp
  ultimately show ?thesis using m(3) by (simp add: types_known_def)
qed

lemma apply_lookup_known:
  "apply_lookup h nm fm ra l (m, d, w) = Inr (m', d', w') \<Longrightarrow> types_known m \<Longrightarrow> types_known m'"
  by (auto simp: apply_lookup_def add_lookup_def new_lookup_def Let_def types_known_def enum_type_known
      split: if_splits option.splits)

lemma override_metric_known: "types_known m \<Longrightarrow> types_known (override_metric h nm e m)"
  by (auto simp: override_metric_def override_hint_def types_known_def Let_def split: prod.splits option.splits)

lemma small_phases_known:
  assumes "types_known m"
  shows "types_known (delete_label l m)" "types_known (sanitize_indexes m)"
    "types_known (m\<lparr>metric_Type := ''OctetString''\<rparr>)"
  using assms octet_type by (auto simp: types_known_def delete_label_def sanitize_indexes_def list_all_iff)

text \<open>
  The interface of the later phases: a property of metrics that each of them keeps, and that
  metrics of usable nodes have, holds for every metric of the module.
\<close>

locale metric_invariant =
  fixes P :: "Metric \<Rightarrow> bool" and h :: heap and nm :: names and ovs :: "(string \<times> MetricOverrides) list"
    and usable :: "shape \<Rightarrow> bool"
  assumes P_mib: "usable s \<Longrightarrow> mib_metric h nm ovs s = Inr (Some m) \<Longrightarrow> P m"
    and P_lookup: "apply_lookup h nm fm ra l (m, d, w) = Inr (m', d', w') \<Longrightarrow> P m \<Longrightarrow> P m'"
    and P_delete: "P m \<Longrightarrow> P (delete_label label m)"
    and P_sanitize: "P m \<Longrightarrow> P (sanitize_indexes m)"
    and P_octet: "P m \<Longrightarrow> P (m\<lparr>metric_Type := ''OctetString''\<rparr>)"
    and P_override: "e \<in> set ovs \<Longrightarrow> P m \<Longrightarrow> P (override_metric h nm e m)"
begin

lemma deletes_kept: "P m \<Longrightarrow> P (fold delete_label ls m)"
  by (induction ls arbitrary: m) (simp_all add: P_delete)

lemma metric_lookups_kept:
  assumes "metric_lookups h nm fm ls m (out, w) = Inr (out', w')" and "P m" "list_all P out"
  shows "list_all P out'"
proof -
  from assms(1) obtain m1 d where f: "foldE (apply_lookup h nm fm (concat (map SourceIndexes ls))) ls (m, [], w) =
      Inr (m1, d, w')" and o: "out' = out @ [fold delete_label d m1]"
    by (auto simp: metric_lookups_def split: sum.splits)
  have "(case (m1, d, w') of (m1, _) \<Rightarrow> P m1)"
    by (rule foldE_invariant [OF f]) (auto intro: P_lookup simp: assms(2))
  with o assms(3) show ?thesis by (simp add: deletes_kept)
qed

lemma lookups_kept:
  assumes "foldE (metric_lookups h nm fm ls) ms (out, w) = Inr (out', w')"
    and "list_all P ms" "list_all P out"
  shows "list_all P out'"
proof -
  have "(case (out', w') of (out, _) \<Rightarrow> list_all P out)"
    by (rule foldE_invariant [OF assms(1)])
      (use assms(2,3) in \<open>auto intro: metric_lookups_kept simp: list_all_iff [of _ ms]\<close>)
  then show ?thesis by simp
qed

lemma check_inet_kept:
  "fold (check_inet h nm) ms (out, w) = (out', w') \<Longrightarrow> list_all P ms \<Longrightarrow> list_all P out \<Longrightarrow> list_all P out'"
proof (induction ms arbitrary: out w)
  case (Cons m ms)
  have "\<exists>m1 w1. check_inet h nm m (out, w) = (out @ [m1], w1) \<and> P m1"
    using Cons.prems(2) P_octet by (auto simp: check_inet_def Let_def)
  with Cons show ?case by fastforce
qed simp

lemma overrides_kept: "list_all P ms \<Longrightarrow> list_all P (apply_overrides h nm ovs ms)"
proof -
  have "list_all P (fold (\<lambda>e. map (override_metric h nm e)) es ms)" if "list_all P ms" "set es \<subseteq> set ovs" for es ms
    using that
  proof (induction es arbitrary: ms)
    case (Cons e es)
    have "list_all P (map (override_metric h nm e) ms)"
      using Cons.prems by (auto simp: list_all_iff P_override)
    from Cons.IH [OF this] Cons.prems(2) show ?case by simp
  qed simp
  then show "list_all P ms \<Longrightarrow> ?thesis" by (simp add: apply_overrides_def)
qed

lemma finish_module_kept:
  assumes "finish_module cfg h nm ms w = Inr out" "mc_Overrides cfg = ovs" "list_all P ms"
  shows "list_all P (module_Metrics out)"
proof -
  obtain ms1 w1 where c: "fold (check_inet h nm) (map sanitize_indexes ms) ([], w) = (ms1, w1)" by fastforce
  have "list_all P (map sanitize_indexes ms)"
    using assms(3) by (auto simp: list_all_iff P_sanitize)
  then have "list_all P ms1" using check_inet_kept [OF c] by simp
  moreover have "module_Metrics out = apply_overrides h nm ovs ms1"
    using assms(1,2) c by (auto simp: finish_module_def Let_def dest: split_walks_metrics)
  ultimately show ?thesis by (simp add: overrides_kept)
qed

text \<open>The metrics of the module, when the nodes below the top-level ones are usable.\<close>

lemma generated:
  assumes "usable_metrics h nm ovs metrics = Inr ms" "\<And>s s'. s \<in> set metrics \<Longrightarrow> s' \<in> set (subtrees s) \<Longrightarrow> usable s'"
    and "foldE (metric_lookups h nm fm ls) ms ([], w) = Inr (ms', w')"
    and "finish_module cfg h nm ms' w' = Inr out" "mc_Overrides cfg = ovs"
  shows "list_all P (module_Metrics out)"
proof -
  have "list_all P ms"
    using usable_metrics_from [OF assms(1)] assms(2) P_mib by (fastforce simp: list_all_iff)
  with finish_module_kept [OF assms(4,5) lookups_kept [OF assms(3)]] show ?thesis by simp
qed

end

interpretation types: metric_invariant types_known h nm ovs "\<lambda>_. True" for h nm ovs
  by unfold_locales (blast intro: mib_metric_known apply_lookup_known override_metric_known small_phases_known)+

lemma generated_types_known:
  assumes "generateConfigModule cfg node nm h0 = (Inr (Inr out), h)"
  shows "list_all types_known (module_Metrics out)"
  using assms
  by (rule generateConfigModule_Inr) (erule (2) types.generated [OF _ TrueI], rule refl)

text \<open>What the exporter does with these types: every metric has a case, an index may have none.\<close>

definition unhandled_index_types :: "string list" where
  "unhandled_index_types = [''Bits'', ''Float'', ''Double'', ''DateAndTime'', ''ParseDateAndTime'', ''NTPTimeStamp'',
     ''EnumAsStateSet'']"

lemma metric_types_handled:
  "t \<in> set metric_types \<Longrightarrow> t \<in> set value_types \<union> set text_types"
  and index_types_handled:
  "t \<in> set metric_types \<Longrightarrow> t \<in> set known_index_types \<longleftrightarrow> t \<notin> set unhandled_index_types"
proof -
  have "list_all (\<lambda>t. (t \<in> set value_types \<or> t \<in> set text_types) \<and>
      (t \<in> set known_index_types \<longleftrightarrow> t \<notin> set unhandled_index_types)) metric_types"
    by code_simp
  then show "t \<in> set metric_types \<Longrightarrow> t \<in> set value_types \<union> set text_types"
    "t \<in> set metric_types \<Longrightarrow> t \<in> set known_index_types \<longleftrightarrow> t \<notin> set unhandled_index_types"
    by (auto simp: list_all_iff)
qed

end
