(* ===== verification/Fetched.thy ===== *)
theory Fetched
  imports GenerateFacts
begin

text \<open>
  A generated module fetches its metrics: what \<open>generateConfigModule\<close> puts into \<open>Walk\<close> and \<open>Get\<close>
  covers every metric it exports, as long as no static filter takes walks away.
\<close>

section \<open>Well-formed inputs\<close>

definition typed :: "Node \<Rightarrow> bool" where
  "typed n \<longleftrightarrow> metricType (n_Type n) \<noteq> None \<and> metricAccess (n_Access n)"

text \<open>Objects with a value have no children.\<close>

definition leaves_ok :: "heap \<Rightarrow> shape \<Rightarrow> bool" where
  "leaves_ok h t \<longleftrightarrow> list_all (\<lambda>s. typed (h (root s)) \<longrightarrow> children s = []) (subtrees t)"

text \<open>The map of names leads to nodes of the tree, and from the OID of such a node to it.\<close>

definition names_lead :: "heap \<Rightarrow> shape \<Rightarrow> names \<Rightarrow> bool" where
  "names_lead h t nm \<longleftrightarrow>
     list_all (\<lambda>(k, n). n \<in> set (subtrees t) \<and> map_of nm (oid_at h n) = Some n) nm"

definition no_empty_part :: "string \<Rightarrow> bool" where
  "no_empty_part oid \<longleftrightarrow> [] \<notin> set (split_on CHR ''.'' oid)"

definition gen_tree_ok :: "heap \<Rightarrow> shape \<Rightarrow> names \<Rightarrow> bool" where
  "gen_tree_ok h t nm \<longleftrightarrow> tree_ok (tree_data h t) \<and> names_lead h t nm \<and>
     list_all (\<lambda>s. no_empty_part (oid_at h s)) (subtrees t)"

lemma override_types_Oid: "n_Oid (fold (override_type nm) ovs h a) = n_Oid (h a)"
proof (induction ovs arbitrary: h)
  case (Cons e ovs)
  have "n_Oid (override_type nm e h a) = n_Oid (h a)"
    by (auto simp: override_type_def update_node_def split: prod.splits option.splits)
  with Cons show ?case by simp
qed simp

lemma gen_tree_ok_override: "gen_tree_ok (fold (override_type nm) ovs h) t nm = gen_tree_ok h t nm"
proof -
  have "tree_ok (tree_data (fold (override_type nm) ovs h) t) = tree_ok (tree_data h t)"
    by (rule tree_ok_cong) (rule override_types_Oid)
  then show ?thesis by (simp add: gen_tree_ok_def names_lead_def override_types_Oid)
qed

section \<open>The top-level nodes are asked for\<close>

text \<open>What is in the set of OIDs for a node: the node itself, or instances of an object.\<close>

definition asked :: "heap \<Rightarrow> shape \<Rightarrow> shape \<Rightarrow> walks \<Rightarrow> bool" where
  "asked h t s w \<longleftrightarrow> s \<in> set (subtrees t) \<and>
     (\<exists>k \<in> set (needToWalk w). k = oid_at h s \<or> (typed (h (root s)) \<and> covers (oid_at h s) k))"

lemma asked_mono: "asked h t s w \<Longrightarrow> set (needToWalk w) \<subseteq> set (needToWalk w') \<Longrightarrow> asked h t s w'"
  by (auto simp: asked_def)

lemma add_top_need: "set (needToWalk w) \<subseteq> set (needToWalk (add_top h oid s ty w))"
  by (auto simp: add_top_def need_def add_instance_def split: oidMetricType.splits)

lemma add_top_nodes: "set (metricNodes (add_top h oid s ty w)) = insert s (set (metricNodes w))"
  by (simp add: add_top_def need_def add_instance_def split: oidMetricType.splits)

lemma covers_snoc: "covers p oid \<Longrightarrow> covers p (oid @ ''.'')"
  by (auto simp: covers_iff)

lemma add_top_asked:
  assumes "gen_tree_ok h t nm" and "getMetricNode h oid t nm = (Some s, ty)"
    and "map_of nm oid = None \<or> (\<exists>n. map_of nm oid = Some n \<and> oid_at h n = oid)"
  shows "asked h t s (add_top h oid s ty w)"
proof (cases "map_of nm oid")
  case None
  with assms(2) have f: "searchNodeTree h oid t = Some s" and ty: "ty = oidInstance" and "typed (h (root s))"
    by (auto simp: getMetricNode_def typed_def split: option.splits if_splits)
  moreover have "s \<in> set (subtrees t)" "covers (oid_at h s) oid"
    using searchNodeTree_Some [OF _ f] assms(1) by (auto simp: gen_tree_ok_def longest_in_def)
  ultimately show ?thesis
    by (auto simp: asked_def add_top_def need_def add_instance_def intro: covers_snoc)
next
  case (Some n)
  with assms(2,3) have s: "s = n" "oid = oid_at h s"
    and ty: "ty = oidSubtree \<or> (ty = oidScalar \<and> typed (h (root s)))"
    by (auto simp: getMetricNode_def typed_def split: if_splits)
  moreover have "s \<in> set (subtrees t)"
    using assms(1) map_of_SomeD [OF Some] s by (auto simp: gen_tree_ok_def names_lead_def list_all_iff)
  moreover have "covers (oid_at h s) (oid_at h s @ ''.0.'')" by (auto simp: covers_iff)
  ultimately show ?thesis by (auto simp: asked_def add_top_def need_def)
qed

lemma find_top_asked:
  assumes "gen_tree_ok h t nm" and "find_top h t nm oids w = Inr w'"
    and "\<forall>oid \<in> set oids. map_of nm oid = None \<or> (\<exists>n. map_of nm oid = Some n \<and> oid_at h n = oid)"
    and "\<forall>s \<in> set (metricNodes w). asked h t s w"
  shows "\<forall>s \<in> set (metricNodes w'). asked h t s w'"
  using assms(2-)
proof (induction oids arbitrary: w)
  case (Cons oid oids)
  then obtain s ty where g: "getMetricNode h oid t nm = (Some s, ty)"
    and r: "find_top h t nm oids (add_top h oid s ty w) = Inr w'"
    by (auto split: prod.splits option.splits)
  have "\<forall>s' \<in> set (metricNodes (add_top h oid s ty w)). asked h t s' (add_top h oid s ty w)"
    using add_top_asked [OF assms(1) g, of w] Cons.prems(2,3) asked_mono [OF _ add_top_need]
    by (auto simp: add_top_nodes)
  with Cons.IH [OF r] Cons.prems(2) show ?case by simp
qed simp

lemma to_walk_resolved:
  assumes "names_lead h t nm" and "to_walk h nm xs = Inr oids" and "oid \<in> set oids"
  shows "map_of nm oid = None \<or> (\<exists>n. map_of nm oid = Some n \<and> oid_at h n = oid)"
  using assms(2,3)
proof (induction xs arbitrary: oids)
  case (Cons x xs)
  then obtain rest where r: "to_walk h nm xs = Inr rest" "oids = resolve h nm x # rest"
    by (auto split: if_splits sum.splits)
  show ?case
  proof (cases "oid = resolve h nm x")
    case True
    show ?thesis
    proof (cases "map_of nm x")
      case None
      with True show ?thesis by (simp add: resolve_def)
    next
      case (Some n)
      with assms(1) have "map_of nm (oid_at h n) = Some n"
        using map_of_SomeD [OF Some] by (auto simp: names_lead_def list_all_iff)
      with True Some show ?thesis by (simp add: resolve_def)
    qed
  next
    case False
    with Cons r show ?thesis by auto
  qed
qed simp

section \<open>The later phases only add to it\<close>

lemma need_set: "set (needToWalk (need oid w)) = insert oid (set (needToWalk w))"
  by (simp add: need_def)

lemma need_instances: "instances_of (need oid w) = instances_of w"
  by (simp add: need_def instances_of_def [abs_def])

lemma fold_mono: "(\<And>x w. A w \<subseteq> A (f x w)) \<Longrightarrow> A w \<subseteq> (A (fold f xs w) :: 'b set)"
  by (induction xs arbitrary: w) (simp, simp, blast)

lemma need_with_mono: "set (needToWalk w) \<subseteq> set (needToWalk (need_with m oid w))"
  by (simp add: need_with_def need_set subset_insertI fold_mono [of "\<lambda>w. set (needToWalk w)"])

lemma apply_lookup_mono:
  "apply_lookup h nm [] ra l (m, d, w) = Inr (m', d', w') \<Longrightarrow> set (needToWalk w) \<subseteq> set (needToWalk w')"
  using need_with_mono by (fastforce simp: apply_lookup_def Let_def split: if_splits option.splits)

lemma metric_lookups_mono:
  assumes "metric_lookups h nm [] ls m (out, w) = Inr (out', w')"
  shows "set (needToWalk w) \<subseteq> set (needToWalk w')"
proof -
  from assms obtain m1 d where f: "foldE (apply_lookup h nm [] (concat (map SourceIndexes ls))) ls (m, [], w) =
      Inr (m1, d, w')"
    by (auto simp: metric_lookups_def split: sum.splits)
  have "(case (m1, d, w') of (_, _, w') \<Rightarrow> set (needToWalk w) \<subseteq> set (needToWalk w'))"
    by (rule foldE_invariant [OF f]) (auto dest: apply_lookup_mono)
  then show ?thesis by simp
qed

lemma lookups_mono:
  assumes "foldE (metric_lookups h nm [] ls) ms (out, w) = Inr (out', w')"
  shows "set (needToWalk w) \<subseteq> set (needToWalk w')"
proof -
  have "(case (out', w') of (_, w') \<Rightarrow> set (needToWalk w) \<subseteq> set (needToWalk w'))"
    by (rule foldE_invariant [OF assms]) (auto dest: metric_lookups_mono)
  then show ?thesis by simp
qed

lemma check_inet_mono:
  "fold (check_inet h nm) ms (out, w) = (out', w') \<Longrightarrow> set (needToWalk w) \<subseteq> set (needToWalk w')"
proof (induction ms arbitrary: out w)
  case (Cons m ms)
  obtain out1 w1 where 1: "check_inet h nm m (out, w) = (out1, w1)" by fastforce
  then have "set (needToWalk w) \<subseteq> set (needToWalk w1)"
    using need_with_mono by (auto simp: check_inet_def Let_def split: if_splits)
  with 1 Cons show ?case by fastforce
qed simp

section \<open>Everything that is asked for is fetched\<close>

lemma split_walks_sets:
  "split_walks ks out = Inr out' \<Longrightarrow>
   set (module_Walk out') = set (module_Walk out) \<union> {k \<in> set ks. last k \<noteq> CHR ''.''} \<and>
   set (module_Get out') = set (module_Get out) \<union> butlast ` {k \<in> set ks. last k = CHR ''.''} \<and> [] \<notin> set ks"
  by (induction ks arbitrary: out) (auto split: if_splits)

text \<open>A walk at or above the object or of instances below it, or a get of an instance.\<close>

definition fetched :: "Module \<Rightarrow> string \<Rightarrow> bool" where
  "fetched out oid \<longleftrightarrow> list_ex (\<lambda>k. covers k oid \<or> covers oid k) (module_Walk out) \<or>
     list_ex (covers oid) (module_Get out)"

lemma split_on_sep: "split_on c (a @ c # b) = split_on c a @ split_on c b"
proof (induction a)
  case (Cons x a)
  then show ?case by (cases "split_on c a") auto
qed simp

lemma no_empty_part_dots:
  assumes "no_empty_part oid"
  shows "oid \<noteq> g @ ''.''" "oid \<noteq> g @ ''..'' @ r"
proof -
  have "[] \<in> set (split_on CHR ''.'' (g @ ''.''))" using split_on_sep [of "CHR ''.''" g "[]"] by simp
  then show "oid \<noteq> g @ ''.''" using assms by (auto simp: no_empty_part_def)
  have "[] \<in> set (split_on CHR ''.'' (g @ CHR ''.'' # CHR ''.'' # r))"
    using split_on_sep [of "CHR ''.''" g "CHR ''.'' # r"] by simp
  then show "oid \<noteq> g @ ''..'' @ r" using assms by (auto simp: no_empty_part_def)
qed

lemma split_walks_fetched:
  assumes "split_walks (minimizeOids oids) out0 = Inr out" and "k \<in> set oids"
    and "covers k oid \<or> covers oid k" and "no_empty_part oid"
  shows "fetched out oid"
proof -
  obtain y where y: "y \<in> set (minimizeOids oids)" and t: "covers y oid \<or> covers oid y"
    using minimized.reduce_meets [OF assms(2,3)] by blast
  note sets = split_walks_sets [OF assms(1)]
  show ?thesis
  proof (cases "last y = CHR ''.''")
    case False
    then show ?thesis using y t sets by (auto simp: fetched_def list_ex_iff)
  next
    case True
    moreover have "butlast y \<in> set (module_Get out)" "y \<noteq> []" using True y sets by auto
    ultimately obtain g where g: "y = g @ ''.''" "g \<in> set (module_Get out)"
      by (metis append_butlast_last_id)
    have "\<not> covers y oid"
      using no_empty_part_dots [OF assms(4)] g(1) by (auto simp: covers_iff)
    with t have "oid = y \<or> y = oid @ ''.'' \<or> (\<exists>r. y = oid @ ''.'' @ r @ ''.'')"
      unfolding covers_iff g(1) by (metis append.assoc append_Nil2 append_butlast_last_id butlast_append last_snoc)
    then have "covers oid g"
      using no_empty_part_dots(1) [OF assms(4)] g(1) by (auto simp: covers_iff)
    then show ?thesis using g(2) by (auto simp: fetched_def list_ex_iff)
  qed
qed

lemma subtree_ok: "tree_ok (tree_data h t) \<Longrightarrow> s \<in> set (subtrees t) \<Longrightarrow> tree_ok (tree_data h s)"
  by (induction t) (auto simp: list_all_iff)

lemma subtrees_trans: "s \<in> set (subtrees t) \<Longrightarrow> s' \<in> set (subtrees s) \<Longrightarrow> s' \<in> set (subtrees t)"
  by (induction t) auto

text \<open>An object below a node that is asked for touches an OID of the set.\<close>

lemma asked_touches:
  assumes "gen_tree_ok h t nm" "leaves_ok h t" and "asked h t s w" and "s' \<in> set (subtrees s)"
  shows "\<exists>k \<in> set (needToWalk w). covers k (oid_at h s') \<or> covers (oid_at h s') k"
proof -
  from assms(3) obtain k where s: "s \<in> set (subtrees t)" and k: "k \<in> set (needToWalk w)"
    "k = oid_at h s \<or> (typed (h (root s)) \<and> covers (oid_at h s) k)" by (auto simp: asked_def)
  have "covers (oid_at h s) (oid_at h s')"
    using subtrees_cover [OF subtree_ok [OF _ s] assms(4)] assms(1) by (simp add: gen_tree_ok_def)
  moreover have "s' = s" if "typed (h (root s))"
    using that assms(2,4) s by (cases s) (auto simp: leaves_ok_def list_all_iff)
  ultimately show ?thesis using k by auto
qed

lemma finish_module_fetched:
  assumes "finish_module cfg h nm ms w = Inr out" and "filters_Static (mc_Filters cfg) = []"
    and "k \<in> set (needToWalk w)" and "covers k oid \<or> covers oid k" "no_empty_part oid"
  shows "fetched out oid"
proof -
  obtain ms1 w1 where c: "fold (check_inet h nm) (map sanitize_indexes ms) ([], w) = (ms1, w1)" by fastforce
  with assms(1,2) have "\<exists>out0. split_walks (minimizeOids (needToWalk w1)) out0 = Inr out"
    by (auto simp: finish_module_def static_filters_def Let_def)
  moreover have "k \<in> set (needToWalk w1)" using check_inet_mono [OF c] assms(3) by auto
  ultimately show ?thesis using split_walks_fetched assms(4,5) by blast
qed

lemma metric_fetched:
  assumes "generateConfigModule cfg node nm h0 = (Inr (Inr out), h)"
    and "gen_tree_ok h0 node nm" "leaves_ok h node" and "filters_Static (mc_Filters cfg) = []"
    and "m \<in> set (module_Metrics out)"
  shows "fetched out (metric_Oid m)"
  using assms(1)
proof (rule generateConfigModule_Inr)
  fix oids w ms ms' w'
  assume h: "h = fold (override_type nm) (mc_Overrides cfg) h0"
    and t: "to_walk h nm (mc_Walk cfg) = Inr oids"
    and f: "find_top h node nm (minimizeOids oids) \<lparr>needToWalk = [], tableInstances = [], metricNodes = []\<rparr> = Inr w"
    and u: "usable_metrics h nm (mc_Overrides cfg) (sort_key (oid_at h) (metricNodes w)) = Inr ms"
    and l: "foldE (metric_lookups h nm (filter_map h nm (filters_Static (mc_Filters cfg))) (mc_Lookups cfg)) ms ([], w) =
       Inr (ms', w')"
    and e: "finish_module cfg h nm ms' w' = Inr out"
  have ok: "gen_tree_ok h node nm" using assms(2) unfolding h by (simp only: gen_tree_ok_override)
  from generated_metric_from [OF assms(1,5)] t f obtain s s' m0
    where s: "s \<in> set (metricNodes w)" "s' \<in> set (subtrees s)"
      and m0: "mib_metric h nm (mc_Overrides cfg) s' = Inr (Some m0)" "from_metric m0 m"
    by auto
  have "\<forall>s \<in> set (metricNodes w). asked h node s w"
    using find_top_asked [OF ok f] to_walk_resolved [OF _ t] minimized.reduce_subset [of oids] ok
    by (auto simp: gen_tree_ok_def)
  with s have a: "asked h node s w" by blast
  from asked_touches [OF ok assms(3) this s(2)] obtain k where k: "k \<in> set (needToWalk w)"
    "covers k (oid_at h s') \<or> covers (oid_at h s') k" by blast
  have "k \<in> set (needToWalk w')"
    using lookups_mono [of h nm "mc_Lookups cfg" ms "[]" w] l k(1) assms(4) by (auto simp: filter_map_def)
  moreover have "no_empty_part (oid_at h s')"
    using ok subtrees_trans [of s node s'] s(2) a by (auto simp: gen_tree_ok_def list_all_iff asked_def)
  ultimately have "fetched out (oid_at h s')" using finish_module_fetched [OF e assms(4)] k(2) by blast
  moreover have "metric_Oid m = oid_at h s'" using mib_metric_Some [OF m0(1)] m0(2) by (simp add: from_metric_def)
  ultimately show ?thesis by simp
qed

end
