(* ===== verification/ConfigView.thy ===== *)
theory ConfigView
  imports ConfigOps
begin

text \<open>
  What \<open>yaml.Marshal\<close> is given of a configuration: the structs of \<open>config/config.go\<close> with every
  \<open>Secret\<close> replaced by what its \<open>MarshalYAML\<close> returns. The encoder itself is a parameter of the
  theories that print a configuration; it sees this view and nothing else. Shown: with the flag
  \<open>DoNotHideSecrets\<close> off the view says of a secret only whether it is set, and everything of the
  rest; with the flag on it determines the configuration.
\<close>

section \<open>Views\<close>

record auth_view =
  view_Community :: "string option"
  view_SecurityLevel :: string
  view_Username :: string
  view_Password :: "string option"
  view_AuthProtocol :: string
  view_PrivProtocol :: string
  view_PrivPassword :: "string option"
  view_ContextName :: string
  view_Version :: int

record config_view =
  view_Auths :: "(string \<times> auth_view option) list"
  view_Modules :: "(string \<times> Module option) list"
  view_config_Version :: int

definition view_auth :: "bool \<Rightarrow> Auth \<Rightarrow> auth_view" where
  "view_auth doNotHideSecrets c =
     \<lparr>view_Community = Secret_MarshalYAML doNotHideSecrets (Community c),
      view_SecurityLevel = SecurityLevel c, view_Username = Username c,
      view_Password = Secret_MarshalYAML doNotHideSecrets (Password c),
      view_AuthProtocol = AuthProtocol c, view_PrivProtocol = PrivProtocol c,
      view_PrivPassword = Secret_MarshalYAML doNotHideSecrets (PrivPassword c),
      view_ContextName = ContextName c, view_Version = auth_Version c\<rparr>"

text \<open>A map with a nil pointer keeps its key.\<close>

definition view_config :: "bool \<Rightarrow> Config \<Rightarrow> config_view" where
  "view_config doNotHideSecrets cfg =
     \<lparr>view_Auths = map (\<lambda>(name, a). (name, map_option (view_auth doNotHideSecrets) a)) (Auths cfg),
      view_Modules = Modules cfg, view_config_Version = config_Version cfg\<rparr>"

section \<open>What a view shows\<close>

text \<open>Two configurations that differ at most in the contents of secrets that are set in both.\<close>

definition same_secret :: "Secret \<Rightarrow> Secret \<Rightarrow> bool" where
  "same_secret s t \<longleftrightarrow> (s = []) = (t = [])"

definition without_secrets :: "Auth \<Rightarrow> Auth" where
  "without_secrets c = c\<lparr>Community := [], Password := [], PrivPassword := []\<rparr>"

definition same_but_secrets :: "Auth \<Rightarrow> Auth \<Rightarrow> bool" where
  "same_but_secrets c d \<longleftrightarrow> without_secrets c = without_secrets d \<and>
     same_secret (Community c) (Community d) \<and> same_secret (Password c) (Password d) \<and>
     same_secret (PrivPassword c) (PrivPassword d)"

definition configs_same_but_secrets :: "Config \<Rightarrow> Config \<Rightarrow> bool" where
  "configs_same_but_secrets cfg cfg' \<longleftrightarrow> Modules cfg = Modules cfg' \<and> config_Version cfg = config_Version cfg' \<and>
     list_all2 (\<lambda>(n, a) (m, b). n = m \<and> rel_option same_but_secrets a b) (Auths cfg) (Auths cfg')"

lemma Secret_hidden_eq: "Secret_MarshalYAML False s = Secret_MarshalYAML False t \<longleftrightarrow> same_secret s t"
  by (simp add: Secret_MarshalYAML_def same_secret_def)

lemma Secret_shown_eq: "Secret_MarshalYAML True s = Secret_MarshalYAML True t \<longleftrightarrow> s = t"
  by (simp add: Secret_MarshalYAML_def)

lemma view_auth_hidden: "view_auth False c = view_auth False d \<longleftrightarrow> same_but_secrets c d"
  by (cases c; cases d) (auto simp: view_auth_def same_but_secrets_def without_secrets_def Secret_hidden_eq)

lemma view_auth_shown: "view_auth True c = view_auth True d \<longleftrightarrow> c = d"
  by (cases c; cases d) (simp add: view_auth_def Secret_shown_eq)

lemma map_eq_list_all2: "map f xs = map g ys \<longleftrightarrow> list_all2 (\<lambda>x y. f x = g y) xs ys"
  by (induction xs arbitrary: ys) (auto simp: list_all2_Cons1 Cons_eq_map_conv)

lemma view_config_eq:
  "view_config b cfg = view_config b cfg' \<longleftrightarrow> Modules cfg = Modules cfg' \<and> config_Version cfg = config_Version cfg' \<and>
     list_all2 (\<lambda>(n, a) (m, a'). n = m \<and> map_option (view_auth b) a = map_option (view_auth b) a')
       (Auths cfg) (Auths cfg')"
  by (auto simp: view_config_def map_eq_list_all2 elim!: list.rel_mono_strong)

lemma map_option_eq_rel: "map_option f a = map_option f b \<longleftrightarrow> rel_option (\<lambda>x y. f x = f y) a b"
  by (cases a; cases b) simp_all

lemma view_config_hidden: "view_config False cfg = view_config False cfg' \<longleftrightarrow> configs_same_but_secrets cfg cfg'"
  unfolding view_config_eq configs_same_but_secrets_def map_option_eq_rel view_auth_hidden ..

lemma view_config_shown: "view_config True cfg = view_config True cfg' \<longleftrightarrow> cfg = cfg'"
proof -
  have "list_all2 (\<lambda>(n, a) (m, a'). n = m \<and> map_option (view_auth True) a = map_option (view_auth True) a') xs ys
      \<longleftrightarrow> xs = ys" for xs ys
    unfolding map_option_eq_rel view_auth_shown option.rel_eq list.rel_eq [symmetric]
    by (intro arg_cong [where f = "\<lambda>R. list_all2 R xs ys"] ext) auto
  then show ?thesis unfolding view_config_eq by (cases cfg; cases cfg') auto
qed

end
