(* ===== verification/InitSNMP.thy ===== *)
theory InitSNMP
  imports GoStrings
begin

text \<open>
  \<open>initSNMP\<close> of \<open>generator/net_snmp.go\<close>: how the generator gets hold of what the net-snmp library
  prints while it loads the MIBs. The standard error is swapped for a pipe at the level of file
  descriptors, and a goroutine reads the pipe to its end. The descriptors of the process are a
  list of numbers with what they refer to; the library is a function from its settings to what
  it prints. Shown: with three descriptors to spare the text is returned whole, the goroutine
  sees the end of the pipe, and every descriptor is what it was; with two, the standard error is
  lost.
\<close>

section \<open>Descriptors\<close>

datatype open_file = PipeReader | PipeWriter | OtherFile string

text \<open>\<open>piped\<close> is what was written into the pipe, \<open>written\<close> what went anywhere else.\<close>

record process =
  fds :: "(int \<times> open_file) list"
  fd_limit :: nat
  piped :: string
  written :: "(open_file \<times> string) list"

definition free_fds :: "process \<Rightarrow> int list" where
  "free_fds p = filter (\<lambda>n. n \<notin> set (map fst (fds p))) (map int [0..<fd_limit p])"

text \<open>A new descriptor is the lowest that is free; the calls answer -1 when they fail.\<close>

definition open_fd :: "open_file \<Rightarrow> process \<Rightarrow> int \<times> process" where
  "open_fd f p = (case free_fds p of [] \<Rightarrow> (-1, p) | n # _ \<Rightarrow> (n, p\<lparr>fds := (n, f) # fds p\<rparr>))"

definition dup :: "int \<Rightarrow> process \<Rightarrow> int \<times> process" where
  "dup fd p = (case map_of (fds p) fd of None \<Rightarrow> (-1, p) | Some f \<Rightarrow> open_fd f p)"

definition close_fd :: "int \<Rightarrow> process \<Rightarrow> process" where
  "close_fd fd p = p\<lparr>fds := filter (\<lambda>e. fst e \<noteq> fd) (fds p)\<rparr>"

definition dup2 :: "int \<Rightarrow> int \<Rightarrow> process \<Rightarrow> process" where
  "dup2 old new p = (case map_of (fds p) old of
      None \<Rightarrow> p
    | Some f \<Rightarrow> p\<lparr>fds := (new, f) # filter (\<lambda>e. fst e \<noteq> new) (fds p)\<rparr>)"

definition write_fd :: "int \<Rightarrow> string \<Rightarrow> process \<Rightarrow> process" where
  "write_fd fd text p = (case map_of (fds p) fd of
      None \<Rightarrow> p
    | Some f \<Rightarrow> if f = PipeWriter then p\<lparr>piped := piped p @ text\<rparr>
        else p\<lparr>written := written p @ [(f, text)]\<rparr>)"

definition os_Pipe :: "process \<Rightarrow> (int \<times> int \<times> process) option" where
  "os_Pipe p = (if length (free_fds p) < 2 then None
     else case open_fd PipeReader p of (r, p1) \<Rightarrow> (case open_fd PipeWriter p1 of (w, p2) \<Rightarrow> Some (r, w, p2)))"

section \<open>Initialisation\<close>

definition getMibsDir :: "string \<Rightarrow> string list \<Rightarrow> string" where
  "getMibsDir defaultDir paths = (if paths = [[]] then defaultDir else join '':'' paths)"

text \<open>The library and the calls of the system that may fail: what the library prints depends on the
  directories, on the options that are toggled and on the environment that \<open>Setenv\<close> has set.\<close>

record netsnmp =
  netsnmp_get_mib_directory :: string
  os_Setenv :: "string \<Rightarrow> string \<Rightarrow> string option"
  netsnmp_init_mib :: "string \<Rightarrow> string option \<Rightarrow> string"
  io_ReadAll :: "string option"

text \<open>
  The swap of the standard error around the library, for a pipe with the ends \<open>r\<close> and \<open>w\<close>. The
  goroutine that reads the pipe answers once no descriptor refers to its other end; \<open>None\<close> is
  waiting for that for ever.
\<close>

definition capture :: "string \<Rightarrow> string option \<Rightarrow> int \<Rightarrow> int \<Rightarrow> process \<Rightarrow> (string + string) option \<times> process" where
  "capture text readAll r w p =
    (case dup 2 p of (savedStderrFd, p) \<Rightarrow>
      let p = close_fd 2 p;
          p = dup2 w 2 p;
          p = write_fd 2 text p;
          p = close_fd w p;
          p = close_fd 2 p;
          p = dup2 savedStderrFd 2 p;
          p = close_fd savedStderrFd p
      in (if PipeWriter \<in> set (map snd (fds p)) then None
          else case readAll of
            Some e \<Rightarrow> Some (Inl (''error reading from pipe: '' @ e))
          | None \<Rightarrow> Some (Inr (piped p)), close_fd r p))"

definition initSNMP :: "netsnmp \<Rightarrow> string list \<Rightarrow> string \<Rightarrow> process \<Rightarrow> (string + string) option \<times> process" where
  "initSNMP sys userMibsDir snmpMIBOpts p =
    (case os_Setenv sys ''MIBS'' ''ALL'' of
       Some e \<Rightarrow> (Some (Inl e), p)
     | None \<Rightarrow>
        let mibsDir = getMibsDir (netsnmp_get_mib_directory sys) userMibsDir;
            opts = (if snmpMIBOpts \<noteq> [] then Some snmpMIBOpts else None)
        in (case os_Pipe p of
              None \<Rightarrow> (Some (Inl ''error creating pipe: too many open files''), p)
            | Some (r, w, p) \<Rightarrow> capture (netsnmp_init_mib sys mibsDir opts) (io_ReadAll sys) r w p))"

section \<open>What is printed is returned\<close>

text \<open>No descriptor twice, none beyond the limit, and no other pipe.\<close>

definition process_ok :: "process \<Rightarrow> bool" where
  "process_ok p \<longleftrightarrow> distinct (map fst (fds p)) \<and> PipeWriter \<notin> set (map snd (fds p)) \<and> piped p = []"

lemma free_fd_Cons:
  assumes "free_fds p = n # ns"
  shows "n \<notin> set (map fst (fds p))" "n \<notin> set ns" "0 \<le> n" "distinct ns"
    "filter (\<lambda>k. k \<noteq> n \<and> k \<notin> set (map fst (fds p))) (map int [0..<fd_limit p]) = ns"
proof -
  have "distinct (free_fds p)" unfolding free_fds_def by (simp add: distinct_map)
  with assms show "n \<notin> set ns" "distinct ns" by simp_all
  have "n \<in> set (free_fds p)" using assms by simp
  then show "n \<notin> set (map fst (fds p))" "0 \<le> n" by (auto simp: free_fds_def)
  have "filter (\<lambda>k. k \<noteq> n) (free_fds p) = ns"
    using \<open>n \<notin> set ns\<close> by (auto simp: assms intro: filter_True)
  then show "filter (\<lambda>k. k \<noteq> n \<and> k \<notin> set (map fst (fds p))) (map int [0..<fd_limit p]) = ns"
    unfolding free_fds_def by (simp add: conj_commute)
qed

lemma open_fd_free:
  assumes "free_fds p = n # ns"
  shows "open_fd f p = (n, p\<lparr>fds := (n, f) # fds p\<rparr>)" "free_fds (p\<lparr>fds := (n, f) # fds p\<rparr>) = ns"
proof -
  show "open_fd f p = (n, p\<lparr>fds := (n, f) # fds p\<rparr>)" by (simp add: open_fd_def assms)
  show "free_fds (p\<lparr>fds := (n, f) # fds p\<rparr>) = ns"
    using free_fd_Cons(5) [OF assms] by (simp add: free_fds_def)
qed

lemma filter_other: "n \<notin> fst ` set xs \<Longrightarrow> filter (\<lambda>e. fst e \<noteq> n) xs = xs"
  by (induction xs) auto

lemma map_of_filter_other: "map_of (filter (\<lambda>e. fst e \<noteq> n) xs) = (map_of xs)(n := None)"
  by (induction xs) auto

text \<open>Two new descriptors are taken for the pipe.\<close>

lemma os_Pipe_free:
  assumes "free_fds p = r # w # ns"
  shows "os_Pipe p = Some (r, w, p\<lparr>fds := (w, PipeWriter) # (r, PipeReader) # fds p\<rparr>)"
    "free_fds (p\<lparr>fds := (w, PipeWriter) # (r, PipeReader) # fds p\<rparr>) = ns"
proof -
  note 1 = open_fd_free [OF assms]
  note 2 = open_fd_free [OF 1(2) [of PipeReader], of PipeWriter]
  show "os_Pipe p = Some (r, w, p\<lparr>fds := (w, PipeWriter) # (r, PipeReader) # fds p\<rparr>)"
    using 1(1) 2(1) by (simp add: os_Pipe_def assms)
  show "free_fds (p\<lparr>fds := (w, PipeWriter) # (r, PipeReader) # fds p\<rparr>) = ns"
    using 2(2) by simp
qed

lemma initSNMP_captures:
  assumes ok: "process_ok p" and free: "free_fds p = r # w # saved # ns" and err: "map_of (fds p) 2 = Some f"
    and sys: "os_Setenv sys ''MIBS'' ''ALL'' = None" "io_ReadAll sys = None"
  shows "\<exists>p'. initSNMP sys dirs opts p = (Some (Inr (netsnmp_init_mib sys
      (getMibsDir (netsnmp_get_mib_directory sys) dirs) (if opts \<noteq> [] then Some opts else None))), p') \<and>
    map_of (fds p') = map_of (fds p) \<and> written p' = written p"
proof -
  let ?p1 = "p\<lparr>fds := (w, PipeWriter) # (r, PipeReader) # fds p\<rparr>"
  note pipe = os_Pipe_free [OF free]
  from free_fd_Cons [OF free] free_fd_Cons [OF open_fd_free(2) [OF free, of PipeReader]]
    free_fd_Cons [OF pipe(2)]
  have new: "r \<notin> fst ` set (fds p)" "w \<notin> fst ` set (fds p)" "saved \<notin> fst ` set (fds p)"
      "r \<noteq> w" "r \<noteq> saved" "w \<noteq> saved" by auto
  have two: "2 \<in> fst ` set (fds p)" using err by (metis map_of_eq_None_iff option.simps(3))
  with new have diff: "r \<noteq> 2" "w \<noteq> 2" "saved \<noteq> 2" by auto
  have "map_of (fds ?p1) 2 = Some f" using err diff by simp
  then have dup: "dup 2 ?p1 = (saved, ?p1\<lparr>fds := (saved, f) # fds ?p1\<rparr>)"
    using open_fd_free(1) [OF pipe(2)] by (simp add: dup_def)
  have f: "f \<noteq> PipeWriter" using ok map_of_SomeD [OF err] by (force simp: process_ok_def)
  have pw: "PipeWriter \<notin> snd ` {x \<in> set (fds p). fst x \<noteq> 2}" using ok by (auto simp: process_ok_def)
  let ?q = "p\<lparr>fds := (2, f) # filter (\<lambda>e. fst e \<noteq> 2) (fds p),
    piped := netsnmp_init_mib sys (getMibsDir (netsnmp_get_mib_directory sys) dirs)
      (if opts \<noteq> [] then Some opts else None)\<rparr>"
  have fl: "filter (\<lambda>e. fst e \<noteq> 2 \<and> fst e \<noteq> w \<and> fst e \<noteq> 2 \<and> fst e \<noteq> saved \<and> fst e \<noteq> r) (fds p) = filter (\<lambda>e. fst e \<noteq> 2) (fds p)"
    using new by (intro filter_cong) auto
  have "capture t None r w ?p1 = (Some (Inr (piped p @ t)),
      p\<lparr>fds := (2, f) # filter (\<lambda>e. fst e \<noteq> 2) (fds p), piped := piped p @ t\<rparr>)" for t
    using dup new diff f pw err
    by (auto simp: capture_def close_fd_def dup2_def write_fd_def Let_def fl)
  then have "initSNMP sys dirs opts p = (Some (Inr (piped ?q)), ?q)"
    using pipe sys ok by (simp add: initSNMP_def process_ok_def Let_def)
  moreover have "map_of (fds ?q) = map_of (fds p)"
    using err by (auto simp: map_of_filter_other)
  ultimately show ?thesis by auto
qed

text \<open>
  With only two descriptors left \<open>dup\<close> fails, which is not looked at: the text is still returned, but
  the standard error stays closed.
\<close>

definition two_left :: process where
  "two_left = \<lparr>fds = [(0, OtherFile ''in''), (1, OtherFile ''out''), (2, OtherFile ''err'')], fd_limit = 5,
     piped = [], written = []\<rparr>"

definition quiet_library :: netsnmp where
  "quiet_library = \<lparr>netsnmp_get_mib_directory = ''mibs'', os_Setenv = (\<lambda>_ _. None),
     netsnmp_init_mib = (\<lambda>dir opts. ''Cannot find module (X): At line 1''), io_ReadAll = None\<rparr>"

lemma stderr_lost:
  "case initSNMP quiet_library [[]] ''eu'' two_left of
     (r, p) \<Rightarrow> r = Some (Inr ''Cannot find module (X): At line 1'') \<and> map_of (fds p) 2 = None"
  by code_simp

end
