(* ===== verification/GenMain.thy ===== *)
theory GenMain
  imports Fetched ConfigView InitSNMP
begin

text \<open>
  The generator as a program: \<open>generator/config.go\<close> (the checks made while generator.yml is
  decoded) and \<open>generator/main.go\<close> (\<open>generateConfig\<close>, \<open>scanParseOutput\<close> and \<open>main\<close>). Files, YAML and
  the output of net-snmp are parameters. Shown: every module is generated from a copy of the
  prepared tree with the data of the original, which stays as it was whatever the modules before
  it have overridden.
\<close>

section \<open>Decoding generator.yml\<close>

datatype gen_config_error =
    GenYamlError string
  | InvalidTypeOverride string
  | InvalidIndex string

definition MetricOverrides_UnmarshalYAML ::
  "(MetricOverrides \<Rightarrow> string + MetricOverrides) \<Rightarrow> MetricOverrides \<Rightarrow> gen_config_error + MetricOverrides" where
  "MetricOverrides_UnmarshalYAML unmarshal c0 = (case unmarshal c0 of
       Inl e \<Rightarrow> Inl (GenYamlError e)
     | Inr c \<Rightarrow>
         if ov_Type c \<noteq> [] \<and> (case metricType (ov_Type c) of None \<Rightarrow> True | Some typ \<Rightarrow> typ \<noteq> ov_Type c)
         then Inl (InvalidTypeOverride (ov_Type c)) else Inr c)"

definition bad_indices :: "Filters \<Rightarrow> string list" where
  "bad_indices fs =
     filter (\<lambda>index. snd (atoi index) \<noteq> None) (concat (map static_Indices (filters_Static fs)))"

definition ModuleConfig_UnmarshalYAML ::
  "(ModuleConfig \<Rightarrow> string + ModuleConfig) \<Rightarrow> ModuleConfig \<Rightarrow> gen_config_error + ModuleConfig" where
  "ModuleConfig_UnmarshalYAML unmarshal c0 = (case unmarshal c0 of
       Inl e \<Rightarrow> Inl (GenYamlError e)
     | Inr c \<Rightarrow> (case bad_indices (mc_Filters c) of
           [] \<Rightarrow> Inr c | index # _ \<Rightarrow> Inl (InvalidIndex index)))"

section \<open>Generating all modules\<close>

record GenConfig =
  gc_Auths :: "(string \<times> Auth option) list"
  gc_Modules :: "(string \<times> ModuleConfig option) list"
  gc_Version :: int

text \<open>The map of names of a copy has the qualified names as well.\<close>

definition module_names :: "heap \<Rightarrow> shape \<Rightarrow> names" where
  "module_names h mNodes = walkNode (\<lambda>n m.
     (let x = h (root n);
          m = AList.update (n_Label x) n (AList.update (n_Oid x) n m)
      in if n_Module x \<noteq> [] then AList.update (n_Module x @ ''::'' @ n_Label x) n m else m)) mNodes []"

text \<open>The loop over the modules; a module that is null in the file is a nil pointer.\<close>

fun generate_modules ::
  "shape \<Rightarrow> (string \<times> ModuleConfig option) list \<Rightarrow> addr \<times> heap
   \<Rightarrow> (gen_error + (string \<times> Module) list) go \<times> addr \<times> heap" where
  "generate_modules nodes [] s = (Inr (Inr []), s)"
| "generate_modules nodes ((name, m) # ms) s =
    (case Copy nodes s of (mNodes, nx, h) \<Rightarrow>
       (case m of
          None \<Rightarrow> (Inl NilDereference, nx, h)
        | Some mc \<Rightarrow>
           (case generateConfigModule mc mNodes (module_names h mNodes) h of
              (Inl p, h') \<Rightarrow> (Inl p, nx, h')
            | (Inr (Inl e), h') \<Rightarrow> (Inr (Inl e), nx, h')
            | (Inr (Inr out), h') \<Rightarrow>
               (case generate_modules nodes ms (nx, h') of
                  (Inr (Inr rest), s') \<Rightarrow>
                    (Inr (Inr ((name, out\<lparr>module_WalkParams := mc_WalkParams mc\<rparr>) # rest)), s')
                | r \<Rightarrow> r))))"

text \<open>Files and YAML: the marshaller gets the view of the configuration, taken while the flag
  \<open>DoNotHideSecrets\<close> is on.\<close>

record gen_system =
  gs_Abs :: "string \<Rightarrow> string + string"
  gs_ReadFile :: "string \<Rightarrow> string + string"
  gs_Unmarshal :: "string \<Rightarrow> string + GenConfig"
  gs_Marshal :: "config_view \<Rightarrow> string + string"
  gs_CheckConfig :: "string \<Rightarrow> string option"
  gs_Create :: "string \<Rightarrow> string option"
  gs_Write :: "string \<Rightarrow> string \<Rightarrow> string option"

datatype generate_error = SystemError string | ModuleError gen_error

text \<open>The file that is written, with its path.\<close>

definition write_config :: "gen_system \<Rightarrow> string \<Rightarrow> Config \<Rightarrow> generate_error + string \<times> string" where
  "write_config sys path cfg =
    (case gs_Marshal sys (view_config True cfg) of
       Inl e \<Rightarrow> Inl (SystemError e)
     | Inr out \<Rightarrow>
        (case gs_CheckConfig sys out of
           Some e \<Rightarrow> Inl (SystemError e)
         | None \<Rightarrow>
            (case gs_Create sys path of
               Some e \<Rightarrow> Inl (SystemError e)
             | None \<Rightarrow>
                 let content = ''# WARNING: This file was auto-generated using snmp_exporter generator, manual changes will be lost.'' @ [CHR 0x0A] @ out
                 in (case gs_Write sys path content of
                   Some e \<Rightarrow> Inl (SystemError e) | None \<Rightarrow> Inr (path, content)))))"

definition generateConfig ::
  "gen_system \<Rightarrow> string \<Rightarrow> string \<Rightarrow> shape \<Rightarrow> addr \<times> heap
   \<Rightarrow> (generate_error + string \<times> string) go \<times> addr \<times> heap" where
  "generateConfig sys generatorYmlPath outputPath nodes s =
    (case gs_Abs sys outputPath of
       Inl e \<Rightarrow> (Inr (Inl (SystemError e)), s)
     | Inr path \<Rightarrow>
        (case gs_ReadFile sys generatorYmlPath of
           Inl e \<Rightarrow> (Inr (Inl (SystemError e)), s)
         | Inr content \<Rightarrow>
            (case gs_Unmarshal sys content of
               Inl e \<Rightarrow> (Inr (Inl (SystemError e)), s)
             | Inr cfg \<Rightarrow>
                (case generate_modules nodes (gc_Modules cfg) s of
                   (Inl p, s') \<Rightarrow> (Inl p, s')
                 | (Inr (Inl e), s') \<Rightarrow> (Inr (Inl (ModuleError e)), s')
                 | (Inr (Inr ms), s') \<Rightarrow>
                     (Inr (write_config sys path
                        \<lparr>Auths = gc_Auths cfg, Modules = map (\<lambda>(name, m). (name, Some m)) ms,
                         config_Version = 0\<rparr>), s')))))"

section \<open>Parse errors and the commands\<close>

text \<open>The runes of a string; a byte that starts none is one of its own.\<close>

fun runes :: "string \<Rightarrow> string list" where
  "runes [] = []"
| "runes (c # cs) = (let k = rune_len (c # cs) - 1 in (c # take k cs) # runes (drop k cs))"

definition trimSpace :: "string \<Rightarrow> string" where
  "trimSpace s = concat (rev (dropWhile isSpace (rev (dropWhile isSpace (runes s)))))"

text \<open>Whether \<open>Cannot find module \((.+)\): (.+)\<close> matches somewhere in a line.\<close>

definition cannotFindModuleRE :: "string \<Rightarrow> bool" where
  "cannotFindModuleRE line \<longleftrightarrow> list_ex (\<lambda>i. hasPrefix (drop i line) ''Cannot find module ('' \<and>
     (let r = drop (i + length ''Cannot find module ('') line
      in list_ex (\<lambda>j. hasPrefix (drop j r) ''): '' \<and> j + 3 < length r) [1..<length r])) [0..<length line]"

definition scanParseOutput :: "string \<Rightarrow> string list go" where
  "scanParseOutput output =
    (let output = trimSpace (toValidUTF8 output);
         parseOutput = (if output \<noteq> [] then split_on (CHR 0x0A) output else [])
     in if list_ex (\<lambda>line. hasPrefix line ''Cannot find module'' \<and> \<not> cannotFindModuleRE line) parseOutput
        then Inl IndexOutOfRange else Inr parseOutput)"

datatype gen_command = GenerateCommand | ParseErrorsCommand | DumpCommand

text \<open>
  What \<open>fmt\<close> prints for a list of strings and for a map with integer keys, which it sorts; the
  quoting of \<open>%q\<close> is a parameter, as it depends on the tables of Unicode.
\<close>

definition sprint_strings :: "string list \<Rightarrow> string" where
  "sprint_strings ss = ''['' @ join '' '' ss @ '']''"

definition sprint_enum :: "enum_values \<Rightarrow> string" where
  "sprint_enum m = ''map['' @ join '' '' (map (\<lambda>(k, v). itoa k @ '':'' @ v) (sort_key fst m)) @ '']''"

definition dump_line :: "(string \<Rightarrow> string) \<Rightarrow> Node \<Rightarrow> string" where
  "dump_line quote n =
    (let t = (if n_FixedSize n \<noteq> 0 then n_Type n @ ''('' @ itoa (n_FixedSize n) @ '')'' else n_Type n);
         implied = (if n_ImpliedIndex n then ''(implied)'' else [])
     in join '' '' [n_Oid n, n_Label n, t, quote (n_TextualConvention n), quote (n_Hint n),
          sprint_strings (n_Indexes n) @ implied, sprint_enum (n_EnumValues n), n_Description n] @ [CHR 0x0A])"

text \<open>
  \<open>main\<close>: the exit status, the file that was written, if any, and what is printed. \<open>init\<close> is the result of
  \<open>initSNMP\<close> (theory InitSNMP), what net-snmp printed; the C tree is what it parsed. A panic has no status of
  its own here.
\<close>

definition generator_main ::
  "gen_system \<Rightarrow> (string \<Rightarrow> string) \<Rightarrow> string \<Rightarrow> string \<Rightarrow> gen_command \<Rightarrow> bool \<Rightarrow> string + string \<Rightarrow> ctree
   \<Rightarrow> (int \<times> (string \<times> string) option \<times> string) go" where
  "generator_main sys quote generatorYmlPath outputPath command failOnParseErrors init ct =
    (case init of
       Inl e \<Rightarrow> Inr (1, None, [])
     | Inr output \<Rightarrow>
        bindG (scanParseOutput output) (\<lambda>parseOutput.
          case getMIBTree ct of (nodes, nx, h) \<Rightarrow>
            (let h = snd (prepareTree nodes h);
                 failing = failOnParseErrors \<and> parseOutput \<noteq> [];
                 status = (if failing then 1 else 0)
             in case command of
                  GenerateCommand \<Rightarrow>
                    if failing then Inr (status, None, [])
                    else bindG (fst (generateConfig sys generatorYmlPath outputPath nodes (nx, h)))
                      (\<lambda>r. Inr (case r of Inl e \<Rightarrow> (1, None, []) | Inr file \<Rightarrow> (status, Some file, [])))
                | ParseErrorsCommand \<Rightarrow>
                    Inr (status, None, if parseOutput \<noteq> [] then join [CHR 0x0A] parseOutput @ [CHR 0x0A] else [])
                | DumpCommand \<Rightarrow>
                    Inr (status, None, walkNode (\<lambda>n out. out @ dump_line quote (h (root n))) nodes []))))"

section \<open>Copies keep the modules apart\<close>

lemma update_values: "(k, n) \<in> set (AList.update k' n' m) \<Longrightarrow> n = n' \<or> (\<exists>k. (k, n) \<in> set m)"
  by (induction m) (auto split: if_splits)

lemma module_names_subtrees: "(k, n) \<in> set (module_names h t) \<Longrightarrow> n \<in> set (subtrees t)"
proof -
  let ?f = "\<lambda>n m. let x = h (root n); m = AList.update (n_Label x) n (AList.update (n_Oid x) n m)
      in if n_Module x \<noteq> [] then AList.update (n_Module x @ ''::'' @ n_Label x) n m else m"
  have "n \<in> set xs \<or> (\<exists>k. (k, n) \<in> set m)" if "(k, n) \<in> set (fold ?f xs m)" for xs m
    using that
  proof (induction xs arbitrary: m)
    case (Cons x xs)
    then have "n \<in> set xs \<or> (\<exists>k. (k, n) \<in> set (?f x m))" by simp
    then show ?case by (auto simp: Let_def dest!: update_values split: if_splits)
  qed auto
  from this [of "subtrees t" "[]"] show "(k, n) \<in> set (module_names h t) \<Longrightarrow> ?thesis"
    by (simp add: module_names_def walkNode_subtrees)
qed

text \<open>A type override changes no node outside the map of names.\<close>

lemma override_types_outside:
  assumes "\<forall>(k, n) \<in> set nm. root n \<noteq> a"
  shows "fold (override_type nm) ovs h a = h a"
proof (induction ovs arbitrary: h)
  case (Cons e ovs)
  have "override_type nm e h a = h a"
    using assms by (fastforce simp: override_type_def update_node_def split: prod.splits option.splits
        dest: map_of_SomeD)
  with Cons show ?case by simp
qed simp

lemma generateConfigModule_outside:
  assumes "\<forall>(k, n) \<in> set nm. root n \<noteq> a"
  shows "snd (generateConfigModule cfg node nm h) a = h a"
  using override_types_outside [OF assms] by (simp add: generateConfigModule_def Let_def)

text \<open>A module that is generated from a copy with the data of the tree.\<close>

definition from_copy :: "node_tree \<Rightarrow> string \<times> ModuleConfig option \<Rightarrow> string \<times> Module \<Rightarrow> bool" where
  "from_copy d e r \<longleftrightarrow> (\<exists>mc t h out. e = (fst r, Some mc) \<and> tree_data h t = d \<and> distinct (addrs t) \<and>
     fst (generateConfigModule mc t (module_names h t) h) = Inr (Inr out) \<and>
     snd r = out\<lparr>module_WalkParams := mc_WalkParams mc\<rparr>)"

lemma generate_modules_copies:
  assumes "generate_modules nodes ms (nx, h) = (r, nx', h')" and "\<forall>a \<in> set (addrs nodes). a < nx"
  shows "(\<forall>a < nx. h' a = h a) \<and>
    (\<forall>out. r = Inr (Inr out) \<longrightarrow> list_all2 (from_copy (tree_data h nodes)) ms out)"
  using assms
proof (induction ms arbitrary: nx h r nx' h')
  case (Cons e ms)
  obtain name m where e: "e = (name, m)" by fastforce
  obtain t n1 h1 where c: "Copy nodes (nx, h) = (t, n1, h1)" by (metis surj_pair)
  from Copy_spec(1) [OF this Cons.prems(2)] have cp: "nx < n1" "\<forall>a < nx. h1 a = h a"
    "set (addrs t) = {nx..<n1}" "distinct (addrs t)" "tree_data h1 t = tree_data h nodes" by blast+
  show ?case
  proof (cases m)
    case None
    with Cons.prems(1) c cp e show ?thesis by auto
  next
    case (Some mc)
    obtain g h2 where g: "generateConfigModule mc t (module_names h1 t) h1 = (g, h2)" by fastforce
    have "root n \<in> {nx..<n1}" if "(k, n) \<in> set (module_names h1 t)" for k n
      using module_names_subtrees [OF that] cp(3) by (auto simp: addrs_def)
    then have "h2 a = h1 a" if "a < nx" for a
      using generateConfigModule_outside [of "module_names h1 t" a mc t h1] that g by fastforce
    with cp(2) have h2: "\<forall>a < nx. h2 a = h a" by simp
    show ?thesis
    proof (cases "\<exists>out. g = Inr (Inr out)")
      case False
      then have "r = (case g of Inl p \<Rightarrow> Inl p | Inr (Inl e) \<Rightarrow> Inr (Inl e))" "h' = h2"
        "\<forall>out. r \<noteq> Inr (Inr out)"
        using Cons.prems(1) c e Some g by (auto split: sum.splits)
      with h2 show ?thesis by auto
    next
      case True
      then obtain out where out: "g = Inr (Inr out)" by blast
      obtain r1 n3 h3 where gm: "generate_modules nodes ms (n1, h2) = (r1, n3, h3)" by (metis surj_pair)
      have "\<forall>a \<in> set (addrs nodes). a < n1" using Cons.prems(2) cp(1) by (meson less_trans)
      from Cons.IH [OF gm this] have ih: "\<forall>a < n1. h3 a = h2 a"
        "\<forall>out. r1 = Inr (Inr out) \<longrightarrow> list_all2 (from_copy (tree_data h2 nodes)) ms out" by blast+
      have d: "tree_data h2 nodes = tree_data h nodes"
        using h2 Cons.prems(2) by (intro tree_data_cong) blast
      have rr: "h' = h3" "\<forall>o'. r = Inr (Inr o') \<longrightarrow> (\<exists>rest. r1 = Inr (Inr rest) \<and>
          o' = (name, out\<lparr>module_WalkParams := mc_WalkParams mc\<rparr>) # rest)"
        using Cons.prems(1) c e Some g out gm by (auto split: sum.splits)
      have "from_copy (tree_data h nodes) e (name, out\<lparr>module_WalkParams := mc_WalkParams mc\<rparr>)"
        unfolding from_copy_def using e Some cp(4,5) g out
        by (intro exI [of _ mc] exI [of _ t] exI [of _ h1] exI [of _ out]) simp
      with rr ih d h2 cp(1) show ?thesis by auto
    qed
  qed
qed simp

end
