(* ===== verification/Exporter.thy ===== *)
theory Exporter
  imports Collect ConfigView
begin

text \<open>
  \<open>main.go\<close>: the HTTP handlers, the shared configuration with its lock, and the start-up of
  the exporter. A request is the map from query parameters to their values; what a handler
  hands to the client library is the collector it builds. Shown: which requests are answered
  and with which modules, that the lock is released on every path, and that a configuration
  that does not load changes nothing.
\<close>

section \<open>Requests\<close>

type_synonym query = "string \<Rightarrow> string list"

text \<open>\<open>url.Values.Get\<close>.\<close>

definition query_get :: "query \<Rightarrow> string \<Rightarrow> string" where
  "query_get q k = (case q k of [] \<Rightarrow> [] | v # _ \<Rightarrow> v)"

text \<open>\<open>uniqueM\<close> and \<open>modules\<close> together: a list without repetitions, in order of appearance.\<close>

definition add_module :: "string \<Rightarrow> string list \<Rightarrow> string list" where
  "add_module m modules = (if m = [] \<or> m \<in> set modules then modules else modules @ [m])"

datatype http_error =
    TargetOnce
  | AuthOnce
  | ContextOnce
  | EngineIDOnce
  | NoModule
  | UnknownAuth string
  | UnknownModule string

definition parseModules :: "query \<Rightarrow> http_error + string list" where
  "parseModules query =
     (let queryModule = (if query ''module'' = [] then [''if_mib''] else query ''module'');
          modules = fold (\<lambda>qm ms. fold add_module (split_on CHR '','' qm) ms) queryModule []
      in if modules = [] then Inl NoModule else Inr modules)"

section \<open>The shared configuration\<close>

text \<open>
  \<open>SafeConfig\<close>: the configuration behind its \<open>RWMutex\<close>; \<open>readers\<close> is the number of read locks
  held, \<open>writer\<close> says that the write lock is. \<open>initialised\<close> are the modules whose duration metric
  exists.
\<close>

record SafeConfig =
  readers :: nat
  writer :: bool
  C :: Config
  initialised :: "string set"
  request_errors :: nat

definition RLock :: "SafeConfig \<Rightarrow> SafeConfig" where
  "RLock sc = sc\<lparr>readers := readers sc + 1\<rparr>"

definition RUnlock :: "SafeConfig \<Rightarrow> SafeConfig" where
  "RUnlock sc = sc\<lparr>readers := readers sc - 1\<rparr>"

definition reject :: "http_error \<Rightarrow> SafeConfig \<Rightarrow> (http_error + 'a) \<times> SafeConfig" where
  "reject e sc = (Inl e, sc\<lparr>request_errors := request_errors sc + 1\<rparr>)"

text \<open>What a request is served with: the collector, its auth and modules still being pointers.\<close>

record served =
  srv_target :: string
  srv_authName :: string
  srv_auth :: "Auth option"
  srv_modules :: "(string \<times> Module option) list"
  srv_context :: string
  srv_engineID :: string

text \<open>The loop over the modules, which ends at the first unknown one.\<close>

fun find_modules :: "Config \<Rightarrow> string list \<Rightarrow> string + (string \<times> Module option) list" where
  "find_modules cfg [] = Inr []"
| "find_modules cfg (m # ms) = (case map_of (Modules cfg) m of
       None \<Rightarrow> Inl m
     | Some module \<Rightarrow> (case find_modules cfg ms of
          Inl e \<Rightarrow> Inl e
        | Inr nms \<Rightarrow> Inr ((m, module) # nms)))"

text \<open>The checks of the parameters, before the configuration is looked at: the name of the auth
  and the modules.\<close>

definition check_request :: "query \<Rightarrow> http_error + string \<times> string list" where
  "check_request query =
     (if length (query ''target'') \<noteq> 1 \<or> query_get query ''target'' = [] then Inl TargetOnce
      else if length (query ''auth'') > 1 then Inl AuthOnce
      else let authName = (if query_get query ''auth'' = [] then ''public_v2'' else query_get query ''auth'') in
        if length (query ''snmp_context'') > 1 then Inl ContextOnce
        else if length (query ''snmp_engineid'') > 1 then Inl EngineIDOnce
        else (case parseModules query of Inl e \<Rightarrow> Inl e | Inr modules \<Rightarrow> Inr (authName, modules)))"

definition serve :: "query \<Rightarrow> string \<Rightarrow> Auth option \<Rightarrow> (string \<times> Module option) list \<Rightarrow> served" where
  "serve query authName auth nmodules = \<lparr>srv_target = query_get query ''target'', srv_authName = authName,
     srv_auth = auth, srv_modules = nmodules, srv_context = query_get query ''snmp_context'',
     srv_engineID = query_get query ''snmp_engineid''\<rparr>"

definition handler :: "query \<Rightarrow> SafeConfig \<Rightarrow> (http_error + served) \<times> SafeConfig" where
  "handler query sc =
     (case check_request query of
        Inl e \<Rightarrow> reject e sc
      | Inr (authName, modules) \<Rightarrow>
          (let sc1 = RLock sc in
           case map_of (Auths (C sc1)) authName of
             None \<Rightarrow> reject (UnknownAuth authName) (RUnlock sc1)
           | Some auth \<Rightarrow>
               (case find_modules (C sc1) modules of
                  Inl m \<Rightarrow> reject (UnknownModule m) (RUnlock sc1)
                | Inr nmodules \<Rightarrow> (Inr (serve query authName auth nmodules), RUnlock sc1))))"

text \<open>The collector of a request; a section that is null in the file is a nil pointer, and
  every worker dereferences it.\<close>

definition collector_of :: "int \<Rightarrow> string \<Rightarrow> served \<Rightarrow> collector go" where
  "collector_of concurrency srcAddress s =
     bindG (mapG (\<lambda>(name, m). case m of None \<Rightarrow> Inl NilDereference | Some module \<Rightarrow> Inr (name, module))
       (srv_modules s)) (\<lambda>modules.
         (case srv_auth s of
            None \<Rightarrow> Inl NilDereference
          | Some auth \<Rightarrow> Inr \<lparr>coll_target = srv_target s, coll_auth = auth, coll_modules = modules,
              coll_concurrency = concurrency, coll_context = srv_context s,
              coll_engineID = srv_engineID s, coll_srcAddress = srcAddress\<rparr>))"

section \<open>Reloading\<close>

definition ReloadConfig :: "system \<Rightarrow> string list \<Rightarrow> bool \<Rightarrow> SafeConfig
    \<Rightarrow> (load_error option \<times> SafeConfig) go" where
  "ReloadConfig sys configFile expandEnvVars sc =
     bindG (LoadFile sys configFile expandEnvVars) (\<lambda>r. case r of
         Inl e \<Rightarrow> Inr (Some e, sc)
       | Inr conf \<Rightarrow>
           (let sc1 = sc\<lparr>writer := True\<rparr>;
                sc2 = sc1\<lparr>C := conf\<rparr>;
                sc3 = sc2\<lparr>initialised := initialised sc2 \<union> fst ` set (Modules (C sc2))\<rparr>
            in Inr (None, sc3\<lparr>writer := False\<rparr>)))"

datatype http_method = POST | OtherMethod string
datatype reload_response = ReloadOK | ReloadFailed load_error | PostExpected

text \<open>The handler passes a channel to the goroutine that reloads, and waits for its answer.\<close>

definition updateConfiguration :: "system \<Rightarrow> string list \<Rightarrow> bool \<Rightarrow> http_method \<Rightarrow> SafeConfig
    \<Rightarrow> (reload_response \<times> SafeConfig) go" where
  "updateConfiguration sys configFile expandEnvVars meth sc = (case meth of
       POST \<Rightarrow> bindG (ReloadConfig sys configFile expandEnvVars sc) (\<lambda>(err, sc').
         Inr (case err of Some e \<Rightarrow> ReloadFailed e | None \<Rightarrow> ReloadOK, sc'))
     | OtherMethod _ \<Rightarrow> Inr (PostExpected, sc))"

section \<open>The page that shows the configuration\<close>

text \<open>The encoder is a parameter; it is given the view of the configuration with secrets hidden.\<close>

type_synonym encoder = "config_view \<Rightarrow> string + string"

definition config_page :: "encoder \<Rightarrow> SafeConfig \<Rightarrow> (string + string) \<times> SafeConfig" where
  "config_page marshal sc =
     (let sc1 = RLock sc; c = marshal (view_config False (C sc1)) in (c, RUnlock sc1))"

section \<open>Start-up\<close>

datatype start_result = ExitConfig load_error | ExitNoModules | ExitNoAuths | DryRun | Running

definition clamp_concurrency :: "int \<Rightarrow> int" where
  "clamp_concurrency c = (if c < 1 then 1 else c)"

definition startup :: "system \<Rightarrow> string list \<Rightarrow> bool \<Rightarrow> bool \<Rightarrow> SafeConfig
    \<Rightarrow> (start_result \<times> SafeConfig) go" where
  "startup sys configFile expandEnvVars dryRun sc =
     bindG (ReloadConfig sys configFile expandEnvVars sc) (\<lambda>(err, sc').
       Inr (case err of
           Some e \<Rightarrow> ExitConfig e
         | None \<Rightarrow>
             if Modules (C sc') = [] then ExitNoModules
             else if Auths (C sc') = [] then ExitNoAuths
             else if dryRun then DryRun else Running, sc'))"

section \<open>Routes\<close>

datatype route = MetricsPage | ProbePage | ReloadPage | HealthyPage | LandingPage | ConfigPage

definition proberPath :: string where "proberPath = ''/snmp''"
definition configPath :: string where "configPath = ''/config''"

text \<open>\<open>http.Handle\<close>, which panics for an empty pattern and for one that is registered already.\<close>

definition http_Handle :: "string \<Rightarrow> route \<Rightarrow> (string \<times> route) list \<Rightarrow> (string \<times> route) list go" where
  "http_Handle pattern r mux =
     (if pattern = [] \<or> pattern \<in> set (map fst mux) then Inl (InvalidPattern pattern)
      else Inr (mux @ [(pattern, r)]))"

definition landing_page :: "string \<Rightarrow> (string \<times> route) list \<Rightarrow> (string \<times> route) list go" where
  "landing_page metricsPath mux =
     (if metricsPath \<noteq> ''/'' \<and> metricsPath \<noteq> [] then http_Handle ''/'' LandingPage mux else Inr mux)"

text \<open>The routes of \<open>main\<close>, in the order of the code, for a path of plain letters and slashes.\<close>

definition routes :: "string \<Rightarrow> (string \<times> route) list go" where
  "routes metricsPath =
     bindG (http_Handle metricsPath MetricsPage []) (\<lambda>mux.
     bindG (http_Handle proberPath ProbePage mux) (\<lambda>mux.
     bindG (http_Handle ''/-/reload'' ReloadPage mux) (\<lambda>mux.
     bindG (http_Handle ''/-/healthy'' HealthyPage mux) (\<lambda>mux.
     bindG (landing_page metricsPath mux) (http_Handle configPath ConfigPage)))))"

text \<open>The exporter starts for every path but those of its other pages and the empty one, for which
  the test of the landing page has a case.\<close>

lemma routes_panic:
  "(\<exists>p. routes path = Inl p) \<longleftrightarrow>
   path \<in> {[], proberPath, ''/-/reload'', ''/-/healthy'', configPath}"
  by (auto simp: routes_def http_Handle_def landing_page_def proberPath_def configPath_def)

lemma routes_distinct: "routes path = Inr mux \<Longrightarrow> distinct (map fst mux) \<and> map_of mux path = Some MetricsPage"
  by (auto simp: routes_def http_Handle_def landing_page_def proberPath_def configPath_def split: if_splits)

text \<open>The service once it runs: requests, pages, reloads (a signal or a POST) in any order,
  each of them as one step.\<close>

inductive service :: "system \<Rightarrow> string list \<Rightarrow> bool \<Rightarrow> SafeConfig \<Rightarrow> SafeConfig \<Rightarrow> bool"
  for sys files expand where
  request: "handler q sc = (r, sc') \<Longrightarrow> service sys files expand sc sc'"
| page: "config_page marshal sc = (c, sc') \<Longrightarrow> service sys files expand sc sc'"
| hup: "ReloadConfig sys files expand sc = Inr (err, sc') \<Longrightarrow> service sys files expand sc sc'"
| post: "updateConfiguration sys files expand meth sc = Inr (r, sc') \<Longrightarrow> service sys files expand sc sc'"

section \<open>Modules of a request\<close>

lemma add_module_distinct: "distinct ms \<Longrightarrow> distinct (add_module m ms)"
  by (simp add: add_module_def)

lemma add_module_set: "set (add_module m ms) = set ms \<union> ({m} - {[]})"
  by (auto simp: add_module_def)

lemma add_modules_distinct: "distinct ms \<Longrightarrow> distinct (fold add_module xs ms)"
  by (induction xs arbitrary: ms) (simp_all add: add_module_distinct)

lemma add_modules_set: "set (fold add_module xs ms) = set ms \<union> (set xs - {[]})"
  by (induction xs arbitrary: ms) (auto simp: add_module_set)

lemma add_queries_distinct:
  "distinct ms \<Longrightarrow> distinct (fold (\<lambda>qm ms. fold add_module (split_on c qm) ms) qs ms)"
  by (induction qs arbitrary: ms) (simp_all add: add_modules_distinct)

lemma add_queries_set:
  "set (fold (\<lambda>qm ms. fold add_module (split_on c qm) ms) qs ms) =
   set ms \<union> (\<Union>qm \<in> set qs. set (split_on c qm) - {[]})"
  by (induction qs arbitrary: ms) (auto simp: add_modules_set)

definition asked_modules :: "query \<Rightarrow> string set" where
  "asked_modules query =
     (\<Union>qm \<in> set (if query ''module'' = [] then [''if_mib''] else query ''module'').
        set (split_on CHR '','' qm) - {[]})"

lemma parseModules_Inr:
  assumes "parseModules query = Inr ms"
  shows "distinct ms" "ms \<noteq> []" "set ms = asked_modules query"
proof -
  let ?qs = "if query ''module'' = [] then [''if_mib''] else query ''module''"
  let ?ms = "fold (\<lambda>qm ms. fold add_module (split_on CHR '','' qm) ms) ?qs []"
  from assms have ms: "ms = ?ms" "?ms \<noteq> []"
    unfolding parseModules_def Let_def by (auto split: if_split_asm)
  from ms show "ms \<noteq> []" by simp
  show "distinct ms" unfolding ms(1) by (rule add_queries_distinct) simp
  show "set ms = asked_modules query" unfolding ms(1) add_queries_set asked_modules_def by simp
qed

lemma find_modules_Inr:
  "find_modules cfg ms = Inr nms \<Longrightarrow>
   map fst nms = ms \<and> (\<forall>(name, m) \<in> set nms. map_of (Modules cfg) name = Some m)"
  by (induction ms arbitrary: nms) (auto split: option.splits sum.splits)

lemma find_modules_Inl: "find_modules cfg ms = Inl m \<Longrightarrow> m \<in> set ms \<and> map_of (Modules cfg) m = None"
  by (induction ms) (auto split: option.splits sum.splits)

section \<open>What handlers keep\<close>

definition unlocked :: "SafeConfig \<Rightarrow> bool" where
  "unlocked sc \<longleftrightarrow> readers sc = 0 \<and> \<not> writer sc"

lemma RUnlock_RLock [simp]: "RUnlock (RLock sc) = sc"
  by (simp add: RLock_def RUnlock_def)

lemma C_RLock [simp]: "C (RLock sc) = C sc"
  by (simp add: RLock_def)

lemma handler_state:
  "snd (handler query sc) = (case fst (handler query sc) of
     Inl _ \<Rightarrow> sc\<lparr>request_errors := request_errors sc + 1\<rparr> | Inr _ \<Rightarrow> sc)"
  by (simp add: handler_def reject_def Let_def split: sum.split option.split prod.split)

lemma check_request_Inr:
  assumes "check_request query = Inr (authName, ms)"
  shows "query ''target'' = [query_get query ''target'']" "query_get query ''target'' \<noteq> []"
    "parseModules query = Inr ms"
  using assms
  by (auto simp: check_request_def query_get_def Let_def length_Suc_conv split: if_splits sum.splits list.splits)

lemma handler_served:
  assumes "handler query sc = (Inr s, sc')"
  shows "query ''target'' = [srv_target s]" "srv_target s \<noteq> []"
    "map_of (Auths (C sc)) (srv_authName s) = Some (srv_auth s)"
    "distinct (map fst (srv_modules s))" "srv_modules s \<noteq> []"
    "set (map fst (srv_modules s)) = asked_modules query"
    "\<forall>(name, m) \<in> set (srv_modules s). map_of (Modules (C sc)) name = Some m"
proof -
  from assms obtain a ms auth nms where c: "check_request query = Inr (a, ms)"
    and au: "map_of (Auths (C sc)) a = Some auth" and nms: "find_modules (C sc) ms = Inr nms"
    and s: "s = serve query a auth nms"
    by (auto simp: handler_def reject_def Let_def split: sum.splits option.splits prod.splits)
  note c' = check_request_Inr [OF c]
  show "query ''target'' = [srv_target s]" "srv_target s \<noteq> []"
    "map_of (Auths (C sc)) (srv_authName s) = Some (srv_auth s)"
    using c'(1,2) au by (simp_all add: s serve_def)
  from find_modules_Inr [OF nms] parseModules_Inr [OF c'(3)]
  show "distinct (map fst (srv_modules s))" "srv_modules s \<noteq> []"
    "set (map fst (srv_modules s)) = asked_modules query"
    "\<forall>(name, m) \<in> set (srv_modules s). map_of (Modules (C sc)) name = Some m" by (auto simp: s serve_def)
qed

lemma ReloadConfig_state:
  assumes "ReloadConfig sys files expand sc = Inr (err, sc')"
  shows "readers sc' = readers sc \<and> (unlocked sc \<longrightarrow> unlocked sc') \<and>
    (case err of Some e \<Rightarrow> sc' = sc | None \<Rightarrow> LoadFile sys files expand = Inr (Inr (C sc')))"
proof -
  from assms obtain r where r: "LoadFile sys files expand = Inr r" by (auto simp: ReloadConfig_def)
  show ?thesis
    by (cases r) (use assms r in \<open>auto simp: ReloadConfig_def Let_def unlocked_def\<close>)
qed

text \<open>A step of the service counts an error, does nothing, or is a reload.\<close>

inductive_cases service_stepE: "service sys files expand sc sc'"

lemma service_step:
  assumes "service sys files expand sc sc'"
  obtains n where "sc' = sc\<lparr>request_errors := n\<rparr>"
    | err where "ReloadConfig sys files expand sc = Inr (err, sc')"
proof -
  have same: "sc = sc\<lparr>request_errors := request_errors sc\<rparr>" by simp
  from assms show ?thesis
  proof (elim service_stepE)
    fix q r assume "handler q sc = (r, sc')"
    with handler_state [of q sc] have "sc' = sc\<lparr>request_errors := request_errors sc + 1\<rparr> \<or> sc' = sc"
      by (cases r) simp_all
    with same show ?thesis using that(1) by metis
  next
    fix marshal c assume "config_page marshal sc = (c, sc')"
    with same show ?thesis using that(1) [of "request_errors sc"] by (simp add: config_page_def Let_def)
  next
    fix meth r assume "updateConfiguration sys files expand meth sc = Inr (r, sc')"
    then have "(\<exists>err. ReloadConfig sys files expand sc = Inr (err, sc')) \<or> sc' = sc"
      by (cases meth) (auto simp: updateConfiguration_def)
    with same show ?thesis using that by metis
  qed (rule that(2))
qed

lemma service_unlocked: "service sys files expand sc sc' \<Longrightarrow> unlocked sc \<Longrightarrow> unlocked sc'"
  by (erule service_step) (auto simp: unlocked_def dest: ReloadConfig_state)

text \<open>The configuration in use is always one that was loaded whole.\<close>

lemma service_config:
  assumes "service sys files expand sc sc'"
  shows "C sc' = C sc \<or> LoadFile sys files expand = Inr (Inr (C sc'))"
  using assms
proof (rule service_step)
  fix err assume "ReloadConfig sys files expand sc = Inr (err, sc')"
  from ReloadConfig_state [OF this] show ?thesis by (cases err) auto
qed simp

text \<open>However the operations are interleaved, no lock stays held between them, and the configuration
  in use is the first one or one that was loaded whole.\<close>

lemma service_keeps_config:
  assumes "(service sys files expand)\<^sup>*\<^sup>* sc sc'" and "unlocked sc"
  shows "unlocked sc' \<and> (C sc' = C sc \<or> LoadFile sys files expand = Inr (Inr (C sc')))"
  using assms
proof (induction rule: rtranclp_induct)
  case (step y z)
  then show ?case using service_unlocked [OF step(2)] service_config [OF step(2)] by auto
qed simp

end
