(* ===== verification/Example.thy ===== *)
theory Example
  imports NoPanic
begin

text \<open>
  A concrete runtime and a small configuration on which the properties are evaluated: the
  functions from outside the repository are replaced by simple ones that meet the hypotheses
  the theorems state about them.
\<close>

definition example_runtime :: runtime where
  "example_runtime = \<lparr>
     wrapCounters = True,
     ToBigInt = (\<lambda>v. case v of GInt i \<Rightarrow> i | GUint w \<Rightarrow> sint w | GUint32 w \<Rightarrow> uint w
                        | GUint64 w \<Rightarrow> uint w | _ \<Rightarrow> 0),
     formatFloat32 = (\<lambda>_. ''0''), formatFloat64 = (\<lambda>_. ''0''),
     sprintUnexpected = (\<lambda>_. ''?''), floatToIntOob = (\<lambda>_. 0),
     timefmtParse = (\<lambda>_ _. None), matchString = (\<lambda>re s. Some (re = s)),
     expandMatch = (\<lambda>_ _ _. None), parseFloat = (\<lambda>_. None),
     newConstMetricError = (\<lambda>d t v ls.
       if distinct (variableLabels d) \<and> length (variableLabels d) = length ls
          \<and> list_all valid_utf8 ls then None else Some ''invalid''),
     rangeLabels = (\<lambda>ls. ls)\<rparr>"

lemma example_runtime_ok [simp]:
  "bigint_ok example_runtime" "range_ok example_runtime" "formats_ok example_runtime"
  "prom_ok example_runtime (\<lambda>_. True) (\<lambda>_. True)"
proof -
  show "bigint_ok example_runtime" by (simp add: bigint_ok_def example_runtime_def)
  have "distinct xs" if "distinct (map fst xs)" for xs :: labels
    using that by (simp add: distinct_map)
  then show "range_ok example_runtime" by (simp add: range_ok_def example_runtime_def)
  show "formats_ok example_runtime"
    using valid_utf8_ascii [of "''0''"]
    by (simp add: formats_ok_def example_runtime_def is_ascii_def del: valid_utf8.simps)
  show "prom_ok example_runtime (\<lambda>_. True) (\<lambda>_. True)"
    by (auto simp: prom_ok_def example_runtime_def list_all_iff)
qed

definition example_metrics :: Metrics where
  "example_metrics = \<lparr>SNMPUnexpectedPduType = 0, SNMPPackets = 0, SNMPRetries = 0, SNMPInflight = 0\<rparr>"

text \<open>A metric with an index, a state set over two states.\<close>

definition example_index :: Index where
  "example_index = \<lparr>index_Labelname = ''ifIndex'', index_Type = ''gauge'', index_FixedSize = 0,
     index_Implied = False, index_EnumValues = []\<rparr>"

definition example_metric :: "string \<Rightarrow> string \<Rightarrow> Metric" where
  "example_metric oid ty = \<lparr>metric_Name = ''ifOperStatus'', metric_Oid = oid, metric_Type = ty,
     metric_Help = ''status'', metric_Indexes = [example_index], metric_Lookups = [],
     metric_RegexpExtracts = [], metric_DateTimePattern = [],
     metric_EnumValues = [(1, ''up''), (2, ''down'')], metric_Offset = f64_zero,
     metric_Scale = f64_zero, metric_DisplayHint = []\<rparr>"

definition example_pdu :: "string \<Rightarrow> int \<Rightarrow> SnmpPDU" where
  "example_pdu name v = \<lparr>pdu_Name = name, pdu_Type = OtherBER 2, pdu_Value = GInt v\<rparr>"

text \<open>Two OID texts and their components.\<close>

lemma example_oids:
  "oidToList ''1.3'' = [1, 3]" "oidToList ''1.3.7'' = [1, 3, 7]"
proof -
  have "listToOid [1, 3] = ''1.3''" "listToOid [1, 3, 7] = ''1.3.7''" by code_simp+
  then show "oidToList ''1.3'' = [1, 3]" "oidToList ''1.3.7'' = [1, 3, 7]"
    using oid.dec_enc [of "[1, 3]"] oid.dec_enc [of "[1, 3, 7]"]
    by (simp_all add: oid_list_def in_i64_def)
qed

definition example_module :: Module where
  "example_module = DefaultModule\<lparr>module_Walk := [''1.3''], module_Get := [''1.4.0'', ''1.5.0''],
     module_Metrics := [example_metric ''1.3'' ''EnumAsStateSet'']\<rparr>"

lemma example_module_safe [simp]: "module_safe example_runtime example_module"
  by (simp add: module_safe_def metric_safe_def index_safe_def example_module_def DefaultModule_def
      DefaultWalkParams_def example_metric_def example_index_def known_index_types_def value_types_def)

text \<open>A library whose agent has nothing to say.\<close>

definition example_lib :: "unit gosnmp_lib" where
  "example_lib = \<lparr>lib_Get = (\<lambda>g oids n. (Inr \<lparr>packet_Variables = [], packet_Error = NoError\<rparr>, n)),
     lib_WalkAll = (\<lambda>g oid n. (Inr [], n)), lib_BulkWalkAll = (\<lambda>g oid n. (Inr [], n)),
     lib_Connect = (\<lambda>g n. (None, n)), lib_Close = (\<lambda>g n. (None, n))\<rparr>"

lemma example_lib_ok [simp]: "lib_ok example_lib"
  by (simp add: lib_ok_def example_lib_def)

definition example_surroundings :: "'c surroundings" where
  "example_surroundings = \<lparr>walk_seconds = f64_zero, scrape_seconds = f64_zero,
     packets_sent = (\<lambda>_. 0), packets_retried = (\<lambda>_. 0), range_pdus = (\<lambda>xs. xs)\<rparr>"

lemma example_surroundings_ok [simp]: "range_pdus_ok example_surroundings"
  by (simp add: range_pdus_ok_def example_surroundings_def)

definition example_collector :: collector where
  "example_collector = \<lparr>coll_target = ''host'', coll_auth = DefaultAuth,
     coll_modules = [(''if_mib'', example_module)], coll_concurrency = 1, coll_context = [],
     coll_engineID = [], coll_srcAddress = []\<rparr>"

text \<open>A run of the pool with one worker and one module, to its end.\<close>

definition example_end :: "unit pool" where
  "example_end = \<lparr>pending = [], closed = True, cancelled = False, workers = [Exited],
     finished = [(''if_mib'', example_module)], chan = [], pool_metrics = example_metrics, crashed = None\<rparr>"

lemma example_end_reachable:
  "reachable (\<lambda>_. Inr ()) (\<lambda>m mx c. Some (Inr ([], mx, c))) example_collector example_metrics example_end"
proof -
  let ?R = "reachable (\<lambda>_. Inr ()) (\<lambda>m mx c. Some (Inr ([], mx, c))) example_collector example_metrics"
  let ?S = "pool_step (\<lambda>_. Inr ()) (\<lambda>m mx c. Some (Inr ([], mx, c)))"
  let ?m = "(''if_mib'', example_module)"
  define s0 :: "unit pool" where "s0 = pool_init example_collector example_metrics"
  define s1 where "s1 = s0\<lparr>workers := [Idle ()]\<rparr>"
  define s2 where "s2 = s1\<lparr>pending := [], workers := [Busy ?m ()]\<rparr>"
  define s3 where "s3 = s2\<lparr>workers := [Idle ()], finished := [?m], chan := [],
    pool_metrics := pool_metrics s2\<rparr>"
  define s4 where "s4 = s3\<lparr>closed := True\<rparr>"
  have w: "workers s0 = [Starting]" "pending s0 = [?m]" "crashed s0 = None" "\<not> closed s0"
      "finished s0 = []" "chan s0 = []"
    by (simp_all add: s0_def pool_init_def example_collector_def workerCount_def)
  have "?R s0" unfolding s0_def by (rule reachable.init)
  moreover have "?S s0 s1" using pool_step.ready [of s0 0] w by (simp add: s1_def)
  ultimately have "?R s1" by (rule reachable.step)
  moreover have "?S s1 s2" using pool_step.send [of s1 ?m "[]" 0] w by (simp add: s1_def s2_def)
  ultimately have "?R s2" by (rule reachable.step)
  moreover have "?S s2 s3" 
    using pool_step.finish [where s = s2 and i = 0 and m = ?m and c = "()" and c' = "()" and out = "[]"
        and mx = "pool_metrics s2" and run = "\<lambda>m mx c. Some (Inr ([], mx, c))"] w
    by (simp add: s1_def s2_def s3_def)
  ultimately have "?R s3" by (rule reachable.step)
  moreover have "?S s3 s4" using pool_step.close [of s3] w by (simp add: s1_def s2_def s3_def s4_def)
  ultimately have "?R s4" by (rule reachable.step)
  moreover have "?S s4 example_end"
    using pool_step.leave [of s4 0] w
    by (simp add: s1_def s2_def s3_def s4_def s0_def example_end_def pool_init_def)
  ultimately show ?thesis by (rule reachable.step)
qed

end
