(* ===== verification/GenExample.thy ===== *)
theory GenExample
  imports GenMain Exporter Example
begin

text \<open>
  A small MIB on which the properties of the generator are evaluated: a table with one entry,
  which is indexed by its first column, and a second column that is an enumeration.
\<close>

definition example_c_node :: "64 word \<Rightarrow> string \<Rightarrow> int \<Rightarrow> int \<Rightarrow> c_node" where
  "example_c_node subid label ty access = \<lparr>c_subid = subid, c_module = Some ''IF-MIB'', c_label = label,
     c_type = ty, c_access = access, c_augments = [], c_description = label, c_hint = [], c_tc = [],
     c_ranges = None, c_units = [], c_enums = [], c_indexes = []\<rparr>"

definition example_ctree :: ctree where
  "example_ctree = CTree (example_c_node 1 ''iso'' 0 0)
     [CTree (example_c_node 2 ''ifTable'' 0 21)
       [CTree (example_c_node 1 ''ifEntry'' 0 21\<lparr>c_indexes := [(''ifIndex'', False)]\<rparr>)
         [CTree (example_c_node 8 ''ifOperStatus'' 3 18\<lparr>c_enums := [(1, ''up''), (2, ''down'')]\<rparr>) [],
          CTree (example_c_node 1 ''ifIndex'' 3 18) []]]]"

definition example_module_config :: ModuleConfig where
  "example_module_config = \<lparr>mc_Walk = [''ifTable''], mc_Lookups = [], mc_WalkParams = zero_WalkParams,
     mc_Overrides = [(''ifOperStatus'', zero_MetricOverrides\<lparr>ov_Type := ''EnumAsStateSet''\<rparr>)],
     mc_Filters = \<lparr>filters_Static = [], filters_Dynamic = []\<rparr>\<rparr>"

definition example_tree :: shape where
  "example_tree = Shape 0 [Shape 1 [Shape 2 [Shape 4 [], Shape 3 []]]]"

definition example_built :: heap where
  "example_built = snd (snd (getMIBTree example_ctree))"

definition example_heap :: heap where
  "example_heap = snd (prepareTree example_tree example_built)"

lemma example_tree_built: "fst (getMIBTree example_ctree) = example_tree"
  by code_simp

definition example_names :: names where
  "example_names = module_names example_heap example_tree"

text \<open>What the generator makes of it.\<close>

definition example_gen_metric :: "string \<Rightarrow> string \<Rightarrow> string \<Rightarrow> enum_values \<Rightarrow> Metric" where
  "example_gen_metric name oid ty ev = \<lparr>metric_Name = name, metric_Oid = oid, metric_Type = ty,
     metric_Help = name @ '' - '' @ oid, metric_Indexes = [example_index], metric_Lookups = [],
     metric_RegexpExtracts = [], metric_DateTimePattern = [], metric_EnumValues = ev,
     metric_Offset = f64_zero, metric_Scale = f64_zero, metric_DisplayHint = []\<rparr>"

definition example_generated :: Module where
  "example_generated = \<lparr>module_Walk = [''1.2''], module_Get = [],
     module_Metrics = [example_gen_metric ''ifIndex'' ''1.2.1.1'' ''gauge'' [],
       example_gen_metric ''ifOperStatus'' ''1.2.1.8'' ''EnumAsStateSet'' [(1, ''up''), (2, ''down'')]],
     module_WalkParams = zero_WalkParams, module_Filters = []\<rparr>"

lemma example_generates:
  "fst (generateConfigModule example_module_config example_tree example_names example_heap) =
     Inr (Inr example_generated)"
  by code_simp

lemma example_tree_ok: "gen_tree_ok example_heap example_tree example_names"
  by code_simp

lemma example_leaves:
  "leaves_ok (snd (generateConfigModule example_module_config example_tree example_names example_heap)) example_tree"
  by code_simp

section \<open>Modules and indexes that panic\<close>

text \<open>
  \<open>EnumAsStateSet\<close> is a valid override for the object a table is indexed by; the module that is
  generated then makes the exporter panic on the first row of the table.
\<close>

definition example_state_set_config :: ModuleConfig where
  "example_state_set_config = example_module_config\<lparr>
     mc_Overrides := [(''ifIndex'', zero_MetricOverrides\<lparr>ov_Type := ''EnumAsStateSet''\<rparr>)]\<rparr>"

lemma state_set_index_panics:
  "case fst (generateConfigModule example_state_set_config example_tree example_names example_heap) of
     Inr (Inr out) \<Rightarrow> list_all (\<lambda>m. list_all (\<lambda>i. index_Type i = ''EnumAsStateSet'' \<and>
         indexOidsAsString [7] (index_Type i) (index_FixedSize i) (index_Implied i) (index_EnumValues i) =
           Inl (UnknownIndexType ''EnumAsStateSet'')) (metric_Indexes m)) (module_Metrics out) \<and>
       module_Metrics out \<noteq> []
   | _ \<Rightarrow> False"
  by code_simp

text \<open>
  A table indexed by an address type and two addresses of that type (a range): the first address
  takes the place of the type in the indexes, and the second cuts off more than there is.
\<close>

lemma address_range_panics:
  assumes "map_of nm ''type'' = Some t" "n_TextualConvention (h (root t)) = ''InetAddressType''"
    "n_Type (h (root t)) = ''INTEGER''"
    and "map_of nm ''low'' = Some a" "map_of nm ''high'' = Some a"
    and "n_TextualConvention (h (root a)) = ''InetAddress''" "n_Type (h (root a)) = ''InetAddress''"
    "n_EnumValues (h (root a)) = []"
  shows "metric_indexes h nm False [] [] [] [''type'', ''low'', ''high''] = Inl IndexOutOfRange"
  using assms
  by (simp add: metricType_def combinedTypes_def combine_index_def enum_type_def drop_end_def Let_def)

text \<open>
  Overrides are applied in the order of \<open>range\<close>, which Go leaves open, and match by a name that
  an override before may have changed: what is generated then depends on the order.
\<close>

lemma override_order_matters:
  fixes e1 e2 :: "string \<times> MetricOverrides"
  defines "e1 \<equiv> (''ifIndex'', zero_MetricOverrides\<lparr>ov_Name := ''ifOperStatus''\<rparr>)"
    and "e2 \<equiv> (''ifOperStatus'', zero_MetricOverrides\<lparr>ov_Help := ''status''\<rparr>)"
  shows "apply_overrides h nm [e1, e2] [example_gen_metric ''ifIndex'' ''1.2.1.1'' ''gauge'' []] \<noteq>
    apply_overrides h nm [e2, e1] [example_gen_metric ''ifIndex'' ''1.2.1.1'' ''gauge'' []]"
  by (simp add: apply_overrides_def override_metric_def override_hint_def zero_MetricOverrides_def
      example_gen_metric_def e1_def e2_def)

section \<open>The exporter around it\<close>

definition example_config :: SafeConfig where
  "example_config = \<lparr>readers = 0, writer = False,
     C = \<lparr>Auths = [(''public_v2'', Some DefaultAuth)],
       Modules = [(''hrSystem'', None), (''if_mib'', Some DefaultModule)], config_Version = 0\<rparr>,
     initialised = {}, request_errors = 0\<rparr>"

definition example_loaded :: Config where
  "example_loaded = \<lparr>Auths = [(''public_v2'', Some DefaultAuth)],
     Modules = [(''if_mib'', Some DefaultModule)], config_Version = 0\<rparr>"

definition example_system :: system where
  "example_system = \<lparr>sys_Glob = (\<lambda>p. Inr [p]), sys_ReadFile = (\<lambda>_. Inr []),
     sys_UnmarshalStrict = (\<lambda>_ _. Inr example_loaded), sys_LookupEnv = (\<lambda>_. None)\<rparr>"

end
