(* ===== verification/GenSafe.thy ===== *)
theory GenSafe
  imports Fetched GenMain
begin

text \<open>
  The generator and the exporter together: a module that \<open>generateConfigModule\<close> produces, written
  to snmp.yml and read back, is one on which the collector does not panic (\<open>module_safe\<close> of theory
  \<open>NoPanic\<close>), under conditions on the MIB and generator.yml that are stated here.
\<close>

section \<open>The conditions\<close>

text \<open>A size that is not negative, and positions of bits that are not.\<close>

definition node_safe :: "Node \<Rightarrow> bool" where
  "node_safe n \<longleftrightarrow> 0 \<le> n_FixedSize n \<and>
     (metricType (n_Type n) = Some ''Bits'' \<longrightarrow> list_all (\<lambda>e. 0 \<le> fst e) (n_EnumValues n))"

definition nodes_safe :: "heap \<Rightarrow> shape \<Rightarrow> names \<Rightarrow> bool" where
  "nodes_safe h t nm \<longleftrightarrow> list_all (\<lambda>s. node_safe (h (root s))) (subtrees t) \<and>
     list_all (\<lambda>(k, n). n \<in> set (subtrees t)) nm"

definition regexes_given :: "(string \<times> RegexpExtract list) list \<Rightarrow> bool" where
  "regexes_given res = list_all (\<lambda>e. list_all (\<lambda>x. extract_Regex x \<noteq> None) (snd e)) res"

definition overrides_safe :: "(string \<times> MetricOverrides) list \<Rightarrow> bool" where
  "overrides_safe ovs = list_all (\<lambda>e. regexes_given (ov_RegexpExtracts (snd e))) ovs"

text \<open>The types the exporter has no case for where an index, or a looked-up value, has them.\<close>

definition unhandled_lookup_types :: "string list" where
  "unhandled_lookup_types = removeAll ''Bits'' unhandled_index_types"

definition labels_handled :: "Metric \<Rightarrow> bool" where
  "labels_handled m \<longleftrightarrow> list_all (\<lambda>i. index_Type i \<notin> set unhandled_index_types) (metric_Indexes m) \<and>
     list_all (\<lambda>l. lookup_Type l \<notin> set unhandled_lookup_types) (metric_Lookups m)"

section \<open>Values\<close>

definition values_ok :: "Metric \<Rightarrow> bool" where
  "values_ok m \<longleftrightarrow> list_all (\<lambda>i. 0 \<le> index_FixedSize i) (metric_Indexes m) \<and>
     (metric_Type m = ''Bits'' \<longrightarrow> list_all (\<lambda>e. 0 \<le> fst e) (metric_EnumValues m)) \<and>
     regexes_given (metric_RegexpExtracts m)"

lemma metric_indexes_sizes:
  "metric_indexes h nm imp p p2 acc is = Inr (Some out) \<Longrightarrow> list_all (\<lambda>(k, n). node_safe (h (root n))) nm \<Longrightarrow>
   list_all (\<lambda>i. 0 \<le> index_FixedSize i) acc \<Longrightarrow> list_all (\<lambda>i. 0 \<le> index_FixedSize i) out"
proof (induction "is" arbitrary: p p2 acc)
  case (Cons i rest)
  from Cons.prems(1) obtain x t where x: "map_of nm i = Some x" and t: "metricType (n_Type (h (root x))) = Some t"
    by (auto split: option.splits)
  define index where "index = \<lparr>index_Labelname = i, index_Type = enum_type (h (root x)) t,
    index_FixedSize = n_FixedSize (h (root x)), index_Implied = (imp \<and> rest = []),
    index_EnumValues = n_EnumValues (h (root x))\<rparr>"
  have index: "index_Type index = enum_type (h (root x)) t" by (simp add: index_def)
  from Cons.prems(1) x t obtain acc' where c: "combine_index p p2 (index_Type index) acc = Inr (Some acc')"
    and r: "metric_indexes h nm imp (n_TextualConvention (h (root x))) p (acc' @ [index]) rest = Inr (Some out)"
    by (auto simp: Let_def index_def [symmetric] index split: option.splits)
  have "node_safe (h (root x))"
    using map_of_SomeD [OF x] Cons.prems(2) by (auto simp: list_all_iff)
  then have "list_all (\<lambda>i. 0 \<le> index_FixedSize i) (acc' @ [index])"
    using combine_index_all [OF c Cons.prems(3)] by (simp add: index_def node_safe_def)
  with Cons.IH [OF r Cons.prems(2)] show ?case by blast
qed simp

lemma mib_metric_values:
  assumes "mib_metric h nm ovs s = Inr (Some m)" "node_safe (h (root s))"
    "list_all (\<lambda>(k, n). node_safe (h (root n))) nm"
  shows "values_ok m"
proof -
  note m = mib_metric_Some [OF assms(1)]
  from metric_indexes_sizes [OF m(2) assms(3)]
  have "list_all (\<lambda>i. 0 \<le> index_FixedSize i) (metric_Indexes m)" by simp
  moreover have "metric_Type m = ''Bits'' \<longrightarrow> list_all (\<lambda>e. 0 \<le> fst e) (metric_EnumValues m)"
    using assms(2) m(1,5) by (simp add: node_safe_def)
  ultimately show ?thesis by (simp only: values_ok_def m(4) regexes_given_def list.pred_inject(1) simp_thms)
qed

lemma apply_lookup_values:
  "apply_lookup h nm fm ra l (m, d, w) = Inr (m', d', w') \<Longrightarrow> values_ok m \<Longrightarrow> values_ok m'"
  by (auto simp: apply_lookup_def add_lookup_def Let_def values_ok_def split: if_splits option.splits)

lemma override_metric_values:
  "e \<in> set ovs \<Longrightarrow> overrides_safe ovs \<Longrightarrow> values_ok m \<Longrightarrow> values_ok (override_metric h nm e m)"
  by (fastforce simp: override_metric_def override_hint_def values_ok_def overrides_safe_def list_all_iff Let_def
      split: prod.splits option.splits)

lemma small_phases_values:
  assumes "values_ok m"
  shows "values_ok (delete_label l m)" "values_ok (sanitize_indexes m)"
    "values_ok (m\<lparr>metric_Type := ''OctetString''\<rparr>)"
  using assms by (simp_all add: values_ok_def delete_label_def sanitize_indexes_def list_all_iff)

interpretation vals: metric_invariant
    "\<lambda>m. overrides_safe ovs \<longrightarrow> list_all (\<lambda>(k, n). node_safe (h (root n))) nm \<longrightarrow> values_ok m"
    h nm ovs "\<lambda>s. node_safe (h (root s))" for h nm ovs
  by unfold_locales
    (blast intro: mib_metric_values apply_lookup_values override_metric_values small_phases_values)+

section \<open>The top-level nodes are in the tree\<close>

lemma searchNodeTree_subtree:
  "searchNodeTree h oid t = Some s \<Longrightarrow> s \<in> set (subtrees t)"
  "searchChildren h oid ts = Some s \<Longrightarrow> \<exists>t \<in> set ts. s \<in> set (subtrees t)"
  by (induction h oid t and h oid ts arbitrary: s and s rule: searchNodeTree_searchChildren.induct)
    (auto split: if_splits option.splits)

lemma getMetricNode_subtree:
  assumes "getMetricNode h oid t nm = (Some s, ty)" "list_all (\<lambda>(k, n). n \<in> set (subtrees t)) nm"
  shows "s \<in> set (subtrees t)"
proof (cases "map_of nm oid")
  case None
  with assms(1) have "searchNodeTree h oid t = Some s"
    by (auto simp: getMetricNode_def split: option.splits if_splits)
  then show ?thesis by (rule searchNodeTree_subtree(1))
next
  case (Some n)
  with assms show ?thesis
    using map_of_SomeD [OF Some] by (auto simp: getMetricNode_def list_all_iff split: if_splits)
qed

lemma find_top_subtrees:
  "find_top h t nm oids w = Inr w' \<Longrightarrow> list_all (\<lambda>(k, n). n \<in> set (subtrees t)) nm \<Longrightarrow>
   set (metricNodes w) \<subseteq> set (subtrees t) \<Longrightarrow> set (metricNodes w') \<subseteq> set (subtrees t)"
proof (induction oids arbitrary: w)
  case (Cons oid oids)
  then obtain s ty where g: "getMetricNode h oid t nm = (Some s, ty)"
    and r: "find_top h t nm oids (add_top h oid s ty w) = Inr w'"
    by (auto split: prod.splits option.splits)
  from getMetricNode_subtree [OF g Cons.prems(2)] Cons.prems(3) Cons.IH [OF r Cons.prems(2)]
  show ?case by (simp add: add_top_nodes)
qed simp

lemma generated_values:
  assumes "generateConfigModule cfg node nm h0 = (Inr (Inr out), h)" and "nodes_safe h node nm"
    and "overrides_safe (mc_Overrides cfg)"
  shows "list_all values_ok (module_Metrics out)"
  using assms(1)
proof (rule generateConfigModule_Inr)
  fix oids w ms ms' w'
  assume f: "find_top h node nm (minimizeOids oids) \<lparr>needToWalk = [], tableInstances = [], metricNodes = []\<rparr> = Inr w"
    and u: "usable_metrics h nm (mc_Overrides cfg) (sort_key (oid_at h) (metricNodes w)) = Inr ms"
    and l: "foldE (metric_lookups h nm (filter_map h nm (filters_Static (mc_Filters cfg))) (mc_Lookups cfg)) ms ([], w) =
       Inr (ms', w')"
    and e: "finish_module cfg h nm ms' w' = Inr out"
  from assms(2) have names: "list_all (\<lambda>(k, n). node_safe (h (root n))) nm"
    by (auto simp: nodes_safe_def list_all_iff)
  from find_top_subtrees [OF f] assms(2) have sub: "set (metricNodes w) \<subseteq> set (subtrees node)"
    by (simp add: nodes_safe_def)
  have "node_safe (h (root s'))" if "s \<in> set (sort_key (oid_at h) (metricNodes w))" "s' \<in> set (subtrees s)" for s s'
    using that sub subtrees_trans assms(2) by (force simp: nodes_safe_def list_all_iff)
  from vals.generated [OF u this l e refl] names assms(3) show ?thesis by (simp add: list_all_iff)
qed

section \<open>Written and read back\<close>

text \<open>
  What the YAML library makes of a module in snmp.yml: the fields it has replace those of the
  value that is decoded into, and a field with \<open>omitempty\<close> and a zero value is not in the file.
\<close>

definition written_params :: "WalkParams \<Rightarrow> WalkParams \<Rightarrow> WalkParams" where
  "written_params p c = \<lparr>MaxRepetitions = (if MaxRepetitions p = 0 then MaxRepetitions c else MaxRepetitions p),
     Retries = (case Retries p of None \<Rightarrow> Retries c | r \<Rightarrow> r),
     Timeout = (if Timeout p = 0 then Timeout c else Timeout p),
     UseUnconnectedUDPSocket = (UseUnconnectedUDPSocket p \<or> UseUnconnectedUDPSocket c),
     AllowNonIncreasingOIDs = (AllowNonIncreasingOIDs p \<or> AllowNonIncreasingOIDs c)\<rparr>"

definition reads_back :: "Module \<Rightarrow> (Module \<Rightarrow> string + Module) \<Rightarrow> bool" where
  "reads_back out unmarshal \<longleftrightarrow> (\<forall>c m. unmarshal c = Inr m \<longrightarrow> module_Metrics m = module_Metrics out \<and>
     module_WalkParams m = written_params (module_WalkParams out) (module_WalkParams c) \<and>
     (module_Filters m = module_Filters out \<or> module_Filters out = [] \<and> module_Filters m = module_Filters c))"

definition filters_compile :: "runtime \<Rightarrow> DynamicFilter list \<Rightarrow> bool" where
  "filters_compile rt fs = list_all (\<lambda>f. list_all (\<lambda>val. \<forall>s. matchString rt val s \<noteq> None) (filter_Values f)) fs"

lemma module_Filters_split: "split_walks ks out = Inr out' \<Longrightarrow> module_Filters out' = module_Filters out"
  by (induction ks arbitrary: out) (auto split: if_splits)

lemma generated_filters:
  assumes "generateConfigModule cfg node nm h0 = (Inr (Inr out), h)"
  shows "module_Filters out = filters_Dynamic (mc_Filters cfg)"
  using assms
  by (rule generateConfigModule_Inr) (auto simp: finish_module_def Let_def dest: module_Filters_split split: prod.splits)

lemma known_handled_safe:
  assumes "types_known m" "values_ok m" "labels_handled m"
  shows "metric_safe m"
proof -
  have "lookup_Type l \<in> set text_types" if "l \<in> set (metric_Lookups m)" for l
  proof (cases "lookup_Type l = []")
    case False
    with that assms(1,3) have "lookup_Type l \<in> set metric_types" "lookup_Type l \<notin> set unhandled_lookup_types"
      by (auto simp: types_known_def labels_handled_def list_all_iff)
    then show ?thesis
      using index_types_handled [of "lookup_Type l"] by (auto simp: unhandled_lookup_types_def text_types_def)
  qed (simp add: text_types_def)
  then have "list_all lookup_safe (metric_Lookups m)" by (simp add: lookup_safe_def list_all_iff)
  moreover have "list_all index_safe (metric_Indexes m)"
    using assms index_types_handled
    by (simp add: types_known_def values_ok_def labels_handled_def index_safe_def list_all_iff)
  ultimately show ?thesis using assms metric_types_handled [of "metric_Type m"]
    by (simp add: metric_safe_def types_known_def values_ok_def regexes_given_def)
qed

lemma generated_safe:
  assumes "generateConfigModule cfg node nm h0 = (Inr (Inr out), h)" and "nodes_safe h node nm"
    and "overrides_safe (mc_Overrides cfg)" "list_all labels_handled (module_Metrics out)"
    and "filters_compile rt (filters_Dynamic (mc_Filters cfg))"
    and "reads_back (out\<lparr>module_WalkParams := mc_WalkParams cfg\<rparr>) unmarshal"
    and "Module_UnmarshalYAML unmarshal = Inr m"
  shows "module_safe rt m"
proof -
  from assms(7) have "unmarshal DefaultModule = Inr m" by (simp add: Module_UnmarshalYAML_def)
  with assms(6) have m: "module_Metrics m = module_Metrics out" "Retries (module_WalkParams m) \<noteq> None"
      "module_Filters m = module_Filters out \<or> module_Filters m = []"
    unfolding reads_back_def
    by (fastforce simp: written_params_def DefaultModule_def DefaultWalkParams_def split: option.splits)+
  have "list_all metric_safe (module_Metrics out)"
    using generated_types_known [OF assms(1)] generated_values [OF assms(1-3)] assms(4) known_handled_safe
    by (auto simp: list_all_iff)
  moreover from m(3) assms(5) generated_filters [OF assms(1)] have "filters_compile rt (module_Filters m)"
    by (auto simp: filters_compile_def)
  ultimately show ?thesis using m by (simp add: module_safe_def filters_compile_def)
qed

end
