(* ===== verification/ServiceAnswers.thy ===== *)
theory ServiceAnswers
  imports Service
begin

text \<open>
  What the goroutines of the exporter answer. A scrape and the page of the configuration are
  answered as the handlers of theory \<open>Exporter\<close>, which run in one step, would have answered at
  some moment between arrival and answer, so no request sees parts of two configurations. A
  POST that reloads is told the truth. The whole process refines the service of single steps.
\<close>

section \<open>Requests are atomic\<close>

text \<open>The answer of a request whose handler runs in one step.\<close>

fun atomic_answer :: "encoder \<Rightarrow> thread \<Rightarrow> SafeConfig \<Rightarrow> thread" where
  "atomic_answer marshal (ProbeStart q) sc = ProbeDone (fst (handler q sc))"
| "atomic_answer marshal PageStart sc = PageDone (fst (config_page marshal sc))"
| "atomic_answer marshal t sc = t"

text \<open>A request that has not decided its answer yet, with what it knows of the configuration.\<close>

fun undecided :: "thread \<Rightarrow> SafeConfig \<Rightarrow> thread \<Rightarrow> bool" where
  "undecided (ProbeStart q) sc (ProbeStart q') \<longleftrightarrow> q' = q"
| "undecided (ProbeStart q) sc (ProbeLock q' a ms) \<longleftrightarrow> q' = q \<and> check_request q = Inr (a, ms)"
| "undecided (ProbeStart q) sc (ProbeAuth q' a ms) \<longleftrightarrow> q' = q \<and> check_request q = Inr (a, ms)"
| "undecided (ProbeStart q) sc (ProbeModules q' a auth ms nms) \<longleftrightarrow> q' = q \<and>
     (\<exists>all. check_request q = Inr (a, all) \<and> map_of (Auths (C sc)) a = Some auth \<and>
       find_modules (C sc) all =
         (case find_modules (C sc) ms of Inl m \<Rightarrow> Inl m | Inr rest \<Rightarrow> Inr (nms @ rest)))"
| "undecided PageStart sc PageStart \<longleftrightarrow> True"
| "undecided PageStart sc PageMarshal \<longleftrightarrow> True"
| "undecided _ _ _ \<longleftrightarrow> False"

text \<open>The answer of a request that has decided.\<close>

fun decision :: "thread \<Rightarrow> thread option" where
  "decision (ProbeRefuse e) = Some (ProbeDone (Inl e))"
| "decision (ProbeReject e) = Some (ProbeDone (Inl e))"
| "decision (ProbeUnlock s) = Some (ProbeDone (Inr s))"
| "decision (ProbeDone r) = Some (ProbeDone r)"
| "decision (PageUnlock c) = Some (PageDone c)"
| "decision (PageDone c) = Some (PageDone c)"
| "decision _ = None"

lemma undecided_C:
  "undecided t0 sc t \<Longrightarrow> C sc' = C sc \<or> inside t = 0 \<Longrightarrow> undecided t0 sc' t"
  by (cases "(t0, sc, t)" rule: undecided.cases) auto

lemma fst_handler:
  "check_request q = Inl e \<Longrightarrow> fst (handler q sc) = Inl e"
  "check_request q = Inr (a, ms) \<Longrightarrow> map_of (Auths (C sc)) a = None \<Longrightarrow> fst (handler q sc) = Inl (UnknownAuth a)"
  "check_request q = Inr (a, ms) \<Longrightarrow> map_of (Auths (C sc)) a = Some auth \<Longrightarrow> find_modules (C sc) ms = Inl m
    \<Longrightarrow> fst (handler q sc) = Inl (UnknownModule m)"
  "check_request q = Inr (a, ms) \<Longrightarrow> map_of (Auths (C sc)) a = Some auth \<Longrightarrow> find_modules (C sc) ms = Inr nms
    \<Longrightarrow> fst (handler q sc) = Inr (serve q a auth nms)"
  by (simp_all add: handler_def reject_def Let_def)

lemma undecided_step:
  assumes "undecided t0 sc t" "thread_step marshal b sc t = Some (t', sc')"
  shows "undecided t0 sc' t' \<or> decision t' = Some (atomic_answer marshal t0 sc)"
  using assms
proof (cases "(t0, sc, t)" rule: undecided.cases)
  case (4 q _ q' a auth ms nms)
  with assms(1) obtain all where qq: "q' = q" and q: "check_request q = Inr (a, all)" "map_of (Auths (C sc)) a = Some auth"
    and all: "find_modules (C sc) all =
      (case find_modules (C sc) ms of Inl m \<Rightarrow> Inl m | Inr rest \<Rightarrow> Inr (nms @ rest))" by auto
  show ?thesis
  proof (cases ms)
    case Nil
    with 4 assms(2) all q qq show ?thesis by (auto simp: fst_handler(4))
  next
    case (Cons m ms')
    with 4 assms q qq all show ?thesis
      by (auto simp: fst_handler(3) split: option.splits sum.splits)
  qed
qed (auto simp: fst_handler config_page_def Let_def split: sum.splits option.splits if_splits)

lemma decision_step:
  "decision t = Some a \<Longrightarrow> thread_step marshal b sc t = Some (t', sc') \<Longrightarrow> decision t' = Some a"
  by (cases t) auto

text \<open>The requests that are answered under the lock or before it, and their answers.\<close>

fun looks_up :: "thread \<Rightarrow> bool" where
  "looks_up (ProbeStart _) = True"
| "looks_up PageStart = True"
| "looks_up _ = False"

fun answered :: "thread \<Rightarrow> bool" where
  "answered (ProbeDone _) = True"
| "answered (PageDone _) = True"
| "answered (ReloadDone _) = True"
| "answered _ = False"

lemma undecided_start: "looks_up t \<Longrightarrow> undecided t sc t"
  by (cases t) auto

lemma undecided_pc: "undecided t0 sc t \<Longrightarrow> t \<noteq> ReloadSend \<and> t \<noteq> ReloadWait \<and> \<not> answered t"
  by (cases "(t0, sc, t)" rule: undecided.cases) auto

lemma decision_pc: "decision t = Some a \<Longrightarrow> t \<noteq> ReloadSend \<and> t \<noteq> ReloadWait \<and> (answered t \<longrightarrow> a = t)"
  by (cases t) auto

text \<open>The state of a request in a run: not decided, or decided by an earlier configuration.\<close>

definition in_progress :: "encoder \<Rightarrow> (service_state \<Rightarrow> service_state \<Rightarrow> bool) \<Rightarrow> thread \<Rightarrow> service_state
    \<Rightarrow> service_state \<Rightarrow> thread \<Rightarrow> bool" where
  "in_progress marshal R t0 s0 s t \<longleftrightarrow> undecided t0 (shared s) t \<or>
     (\<exists>s1. R\<^sup>*\<^sup>* s0 s1 \<and> R\<^sup>*\<^sup>* s1 s \<and> decision t = Some (atomic_answer marshal t0 (shared s1)))"

lemma in_progress_pc: "in_progress marshal R t0 s0 s t \<Longrightarrow> t \<noteq> ReloadSend \<and> t \<noteq> ReloadWait"
  by (auto simp: in_progress_def dest: undecided_pc decision_pc)

lemma in_progress_other:
  assumes "in_progress marshal R t0 s0 s t" "R s s'" "C (shared s') = C (shared s) \<or> inside t = 0"
  shows "in_progress marshal R t0 s0 s' t"
  using assms undecided_C [of t0 "shared s" t "shared s'"]
  unfolding in_progress_def by (meson rtranclp.rtrancl_into_rtrancl)

lemma in_progress_own:
  assumes "in_progress marshal R t0 s0 s t" "R\<^sup>*\<^sup>* s0 s" "R s s'"
    "thread_step marshal b (shared s) t = Some (t', shared s')"
  shows "in_progress marshal R t0 s0 s' t'"
  using assms(1) unfolding in_progress_def
proof
  assume "undecided t0 (shared s) t"
  from undecided_step [OF this assms(4)] assms(2,3)
  show "undecided t0 (shared s') t' \<or>
      (\<exists>s1. R\<^sup>*\<^sup>* s0 s1 \<and> R\<^sup>*\<^sup>* s1 s' \<and> decision t' = Some (atomic_answer marshal t0 (shared s1)))"
    by (meson r_into_rtranclp)
next
  assume "\<exists>s1. R\<^sup>*\<^sup>* s0 s1 \<and> R\<^sup>*\<^sup>* s1 s \<and> decision t = Some (atomic_answer marshal t0 (shared s1))"
  then show "undecided t0 (shared s') t' \<or>
      (\<exists>s1. R\<^sup>*\<^sup>* s0 s1 \<and> R\<^sup>*\<^sup>* s1 s' \<and> decision t' = Some (atomic_answer marshal t0 (shared s1)))"
    using assms(3,4) decision_step by (meson rtranclp.rtrancl_into_rtrancl)
qed

text \<open>The configuration changes only while the reload goroutine holds the lock, alone.\<close>

lemma run_effect:
  assumes "action marshal systems files expand s s'" "service_ok s" "i < length (threads s)"
  obtains (own) "thread_step marshal (barred s) (shared s) (threads s ! i) = Some (threads s' ! i, shared s')"
  | (other) "threads s' ! i = threads s ! i" "C (shared s') = C (shared s) \<or> inside (threads s ! i) = 0"
  | (sent) "threads s ! i = ReloadSend" "threads s' ! i = ReloadWait" "reloader s' = Loading (Client i)"
  | (replied) err where "threads s ! i = ReloadWait" "reloader s = Replying err (Client i)"
      "threads s' ! i = ReloadDone (reload_answer err)"
proof -
  from assms(2) have lock: "lock_ok s" by (simp add: service_ok_def)
  from assms(1) show ?thesis
  proof (rule actionE)
    fix j t sc
    assume j: "j < length (threads s)"
      and t: "thread_step marshal (barred s) (shared s) (threads s ! j) = Some (t, sc)"
      and s': "s' = s\<lparr>shared := sc, threads := (threads s)[j := t]\<rparr>"
    show ?thesis
    proof (cases "j = i")
      case True with j t s' show ?thesis by (intro own) simp
    next
      case False
      with thread_step_effect(4) [OF t lock_okD(1) [OF lock j]] s' show ?thesis by (intro other) simp_all
    qed
  next
    fix sys r sc
    assume r: "reload_step sys files expand (shared s) (reloader s) = Some (r, sc)"
      and s': "s' = s\<lparr>shared := sc, reloader := r\<rparr>"
    have "inside (threads s ! i) = 0" if "writing (reloader s)"
      using that lock_okD [OF lock] assms(3) by fastforce
    with reload_step_effect(5) [OF r] s' show ?thesis by (intro other) auto
  next
    fix j assume "threads s ! j = ReloadSend"
      "s' = s\<lparr>threads := (threads s)[j := ReloadWait], reloader := Loading (Client j)\<rparr>"
    with assms(3) show ?thesis by (cases "j = i") (auto intro: other sent)
  next
    fix j err assume "threads s ! j = ReloadWait" "reloader s = Replying err (Client j)"
      "s' = s\<lparr>threads := (threads s)[j := ReloadDone (reload_answer err)], reloader := Waiting\<rparr>"
    with assms(3) show ?thesis by (cases "j = i") (auto intro: other replied)
  qed (auto intro: other)
qed

lemma arrive_effect:
  "arrive s s' \<Longrightarrow> shared s' = shared s \<and> reloader s' = reloader s \<and> died s' = died s \<and>
    (\<forall>i < length (threads s). threads s' ! i = threads s ! i) \<and> length (threads s) \<le> length (threads s')"
  by (erule arriveE) (auto simp: nth_append)

lemma run_length: "action marshal systems files expand s s' \<Longrightarrow> length (threads s') = length (threads s)"
  by (erule actionE) auto

lemma step_length: "step marshal systems files expand s s' \<Longrightarrow> length (threads s) \<le> length (threads s')"
  using arrive_effect run_length unfolding step_def by fastforce

lemma steps_length: "(step marshal systems files expand)\<^sup>*\<^sup>* s s' \<Longrightarrow> length (threads s) \<le> length (threads s')"
  by (induction rule: rtranclp_induct) (auto dest: step_length)

lemma in_progress_steps:
  assumes "(step marshal systems files expand)\<^sup>*\<^sup>* s0 s" "service_ok s0" "i < length (threads s0)"
    "looks_up (threads s0 ! i)"
  shows "in_progress marshal (step marshal systems files expand) (threads s0 ! i) s0 s (threads s ! i)"
  using assms(1)
proof (induction rule: rtranclp_induct)
  case base
  from assms(4) show ?case by (simp add: in_progress_def undecided_start)
next
  case (step s s')
  from service_ok_steps [OF step.hyps(1) assms(2)] have ok: "service_ok s" .
  from steps_length [OF step.hyps(1)] assms(3) have i: "i < length (threads s)" by simp
  from step.hyps(2) consider (run) "action marshal systems files expand s s'" | (arrive) "arrive s s'"
    unfolding step_def by blast
  then show ?case
  proof cases
    case run
    from run ok i show ?thesis
    proof (cases rule: run_effect)
      case own
      from in_progress_own [OF step.IH step.hyps(1,2) own] show ?thesis .
    next
      case other
      from in_progress_other [OF step.IH step.hyps(2) other(2)] other(1) show ?thesis by simp
    qed (use in_progress_pc [OF step.IH] in simp_all)
  next
    case arrive
    from arrive_effect [OF this] i in_progress_other [OF step.IH step.hyps(2)] show ?thesis by simp
  qed
qed

lemma request_atomic:
  assumes "(step marshal systems files expand)\<^sup>*\<^sup>* s0 s" "service_ok s0" "i < length (threads s0)"
    "looks_up (threads s0 ! i)" "answered (threads s ! i)"
  shows "\<exists>s1. (step marshal systems files expand)\<^sup>*\<^sup>* s0 s1 \<and> (step marshal systems files expand)\<^sup>*\<^sup>* s1 s \<and>
    threads s ! i = atomic_answer marshal (threads s0 ! i) (shared s1)"
  using in_progress_steps [OF assms(1-4)] assms(5) decision_pc undecided_pc
  unfolding in_progress_def by metis

section \<open>The answer of a reload\<close>

definition loads :: "system set \<Rightarrow> string list \<Rightarrow> bool \<Rightarrow> load_error + Config \<Rightarrow> bool" where
  "loads systems files expand r \<longleftrightarrow> (\<exists>sys \<in> systems. LoadFile sys files expand = Inr r)"

lemma loadsI: "sys \<in> systems \<Longrightarrow> LoadFile sys files expand = Inr r \<Longrightarrow> loads systems files expand r"
  by (auto simp: loads_def)

text \<open>What the reload goroutine has established, \<open>used\<close> being the configurations that were in use.\<close>

fun established :: "(load_error + Config \<Rightarrow> bool) \<Rightarrow> (Config \<Rightarrow> bool) \<Rightarrow> reloader \<Rightarrow> bool" where
  "established ld used Waiting \<longleftrightarrow> True"
| "established ld used (Loading _) \<longleftrightarrow> True"
| "established ld used (WantLock conf _) \<longleftrightarrow> ld (Inr conf)"
| "established ld used (Draining conf _) \<longleftrightarrow> ld (Inr conf)"
| "established ld used (Assigning conf _) \<longleftrightarrow> ld (Inr conf)"
| "established ld used (Replying (Some e) _) \<longleftrightarrow> ld (Inl e)"
| "established ld used _ \<longleftrightarrow> (\<exists>conf. ld (Inr conf) \<and> used conf)"

lemma established_step:
  assumes "reload_step sys files expand sc r = Some (r', sc')" "sys \<in> systems"
    "established (loads systems files expand) used r" "used (C sc')"
  shows "established (loads systems files expand) used r'"
  using assms
  by (cases "(sys, files, expand, sc, r)" rule: reload_step.cases)
    (auto intro: loadsI split: sum.splits if_splits)

lemma established_mono:
  "established ld used r \<Longrightarrow> (\<And>conf. used conf \<Longrightarrow> used' conf) \<Longrightarrow> established ld used' r"
  by (cases "(ld, used, r)" rule: established.cases) auto

fun honest :: "(load_error + Config \<Rightarrow> bool) \<Rightarrow> (Config \<Rightarrow> bool) \<Rightarrow> reload_response \<Rightarrow> bool" where
  "honest ld used ReloadOK \<longleftrightarrow> (\<exists>conf. ld (Inr conf) \<and> used conf)"
| "honest ld used (ReloadFailed e) \<longleftrightarrow> ld (Inl e)"
| "honest ld used PostExpected \<longleftrightarrow> False"

lemma established_honest: "established ld used (Replying err c) \<Longrightarrow> honest ld used (reload_answer err)"
  by (cases err) auto

text \<open>A POST to the reload page, from its arrival on.\<close>

definition reload_ok :: "(load_error + Config \<Rightarrow> bool) \<Rightarrow> (Config \<Rightarrow> bool) \<Rightarrow> reloader \<Rightarrow> thread \<Rightarrow> bool" where
  "reload_ok ld used r t \<longleftrightarrow> t = ReloadStart POST \<or> t = ReloadSend \<or> t = ReloadWait \<and> established ld used r \<or>
     (\<exists>a. t = ReloadDone a \<and> honest ld used a)"

lemma honest_mono: "honest ld used a \<Longrightarrow> (\<And>conf. used conf \<Longrightarrow> used' conf) \<Longrightarrow> honest ld used' a"
  by (cases a) auto

lemma reload_ok_mono:
  assumes "reload_ok ld used r t" "\<And>conf. used conf \<Longrightarrow> used' conf"
  shows "reload_ok ld used' r t"
proof -
  have "established ld used r \<Longrightarrow> established ld used' r" "honest ld used a \<Longrightarrow> honest ld used' a" for a
    using assms(2) by (blast intro: established_mono honest_mono)+
  with assms(1) show ?thesis unfolding reload_ok_def by blast
qed

lemma reload_ok_own:
  "reload_ok ld used r t \<Longrightarrow> thread_step marshal b sc t = Some (t', sc') \<Longrightarrow> reload_ok ld used r t'"
  unfolding reload_ok_def by auto

lemma reload_ok_other: "reload_ok ld used r t \<Longrightarrow> t \<noteq> ReloadWait \<Longrightarrow> reload_ok ld used r' t"
  by (auto simp: reload_ok_def)

lemma reload_ok_run:
  assumes "action marshal systems files expand s s'" "service_ok s" "i < length (threads s)"
    "reload_ok (loads systems files expand) used (reloader s) (threads s ! i)" "used (C (shared s'))"
  shows "reload_ok (loads systems files expand) used (reloader s') (threads s' ! i)"
proof -
  have waits: "client (reloader s) = Some i" if "threads s ! i = ReloadWait"
    using that assms(2,3) unfolding service_ok_def clients_ok_def by blast
  from assms(1) show ?thesis
  proof (rule actionE)
    fix j t sc
    assume "thread_step marshal (barred s) (shared s) (threads s ! j) = Some (t, sc)"
      "s' = s\<lparr>shared := sc, threads := (threads s)[j := t]\<rparr>" "j < length (threads s)"
    with assms(4) reload_ok_own show ?thesis by (cases "j = i") simp_all
  next
    fix sys r sc
    assume "sys \<in> systems" "reload_step sys files expand (shared s) (reloader s) = Some (r, sc)"
      "s' = s\<lparr>shared := sc, reloader := r\<rparr>"
    with assms(4,5) established_step show ?thesis unfolding reload_ok_def by fastforce
  next
    assume "reloader s = Waiting" "s' = s\<lparr>reloader := Loading Hup, hup_pending := False\<rparr>"
    with assms(4) waits reload_ok_other show ?thesis by fastforce
  next
    fix j assume "reloader s = Waiting"
      "s' = s\<lparr>threads := (threads s)[j := ReloadWait], reloader := Loading (Client j)\<rparr>"
    with assms(3,4) waits show ?thesis by (cases "j = i") (auto simp: reload_ok_def)
  next
    fix j err assume r: "reloader s = Replying err (Client j)" and j: "threads s ! j = ReloadWait"
      and s': "s' = s\<lparr>threads := (threads s)[j := ReloadDone (reload_answer err)], reloader := Waiting\<rparr>"
    show ?thesis
    proof (cases "j = i")
      case True
      with r j assms(4) have "established (loads systems files expand) used (Replying err (Client i))"
        by (simp add: reload_ok_def)
      from established_honest [OF this] True s' assms(3) show ?thesis by (simp add: reload_ok_def)
    next
      case False
      with r waits assms(4) s' show ?thesis by (auto simp: reload_ok_def)
    qed
  qed (use assms(4) in simp)
qed

text \<open>The configurations in use between two states.\<close>

definition used_between :: "(service_state \<Rightarrow> service_state \<Rightarrow> bool) \<Rightarrow> service_state \<Rightarrow> service_state \<Rightarrow> Config \<Rightarrow> bool" where
  "used_between R s0 s conf \<longleftrightarrow> (\<exists>s1. R\<^sup>*\<^sup>* s0 s1 \<and> R\<^sup>*\<^sup>* s1 s \<and> C (shared s1) = conf)"

lemma reload_answered:
  assumes "(step marshal systems files expand)\<^sup>*\<^sup>* s0 s" "service_ok s0" "i < length (threads s0)"
    "threads s0 ! i = ReloadStart POST"
  shows "reload_ok (loads systems files expand) (used_between (step marshal systems files expand) s0 s)
    (reloader s) (threads s ! i)"
  using assms(1)
proof (induction rule: rtranclp_induct)
  case base
  from assms(4) show ?case by (simp add: reload_ok_def)
next
  case (step s s')
  let ?R = "step marshal systems files expand" and ?ld = "loads systems files expand"
  have mono: "used_between ?R s0 s' conf" if "used_between ?R s0 s conf" for conf
    using that step.hyps(2) unfolding used_between_def by (metis rtranclp.rtrancl_into_rtrancl)
  from reload_ok_mono [OF step.IH mono]
  have prev: "reload_ok ?ld (used_between ?R s0 s') (reloader s) (threads s ! i)" .
  have here: "used_between ?R s0 s' (C (shared s'))"
    using rtranclp.rtrancl_into_rtrancl [OF step.hyps] unfolding used_between_def by blast
  from steps_length [OF step.hyps(1)] assms(3) have i: "i < length (threads s)" by simp
  from step.hyps(2) consider "action marshal systems files expand s s'" | "arrive s s'"
    unfolding step_def by blast
  then show ?case
  proof cases
    case 1
    from reload_ok_run [OF 1 service_ok_steps [OF step.hyps(1) assms(2)] i prev here] show ?thesis .
  next
    case 2
    from arrive_effect [OF 2] i prev show ?thesis by simp
  qed
qed

section \<open>Refinement of the service of single steps\<close>

text \<open>
  The shared state as it is when the goroutines that are inside were not: no lock held, and the
  metrics of a configuration that is in use already counted as made.
\<close>

definition outside :: "service_state \<Rightarrow> SafeConfig" where
  "outside s = (shared s)\<lparr>readers := 0, writer := False,
     initialised := initialised (shared s) \<union> uninitialised (reloader s)\<rparr>"

definition reload_established :: "system set \<Rightarrow> string list \<Rightarrow> bool \<Rightarrow> service_state \<Rightarrow> bool" where
  "reload_established systems files expand s \<longleftrightarrow> established (loads systems files expand) (\<lambda>_. True) (reloader s)"

lemma reload_established_step:
  assumes "step marshal systems files expand s s'" "reload_established systems files expand s"
  shows "reload_established systems files expand s'"
proof -
  from assms(1) consider "action marshal systems files expand s s'" | "arrive s s'"
    unfolding step_def by blast
  then show ?thesis
  proof cases
    case 1
    then show ?thesis
      by (rule actionE) (use assms(2) established_step in \<open>auto simp: reload_established_def\<close>)
  next
    case 2
    from arrive_effect [OF 2] assms(2) show ?thesis by (simp add: reload_established_def)
  qed
qed

lemma thread_step_outside:
  assumes "thread_step marshal b sc t = Some (t', sc')"
  shows "sc' = sc \<or> (\<exists>n. sc' = sc\<lparr>readers := n\<rparr>) \<or> sc' = sc\<lparr>request_errors := request_errors sc + 1\<rparr>"
  using assms
  by (cases "(marshal, b, sc, t)" rule: thread_step.cases)
    (auto simp: RLock_def RUnlock_def split: sum.splits option.splits if_splits)

lemma reload_step_outside:
  assumes "reload_step sys files expand sc r = Some (r', sc')"
    "established ld used r" "sc0 = sc\<lparr>readers := 0, writer := False, initialised := initialised sc \<union> uninitialised r\<rparr>"
    "sc1 = sc'\<lparr>readers := 0, writer := False, initialised := initialised sc' \<union> uninitialised r'\<rparr>"
  shows "sc1 = sc0 \<or> (\<exists>conf. ld (Inr conf) \<and>
    sc1 = sc0\<lparr>C := conf, initialised := initialised sc0 \<union> fst ` set (Modules conf)\<rparr>)"
  using assms
  by (cases "(sys, files, expand, sc, r)" rule: reload_step.cases)
    (auto split: sum.splits if_splits)

lemma ReloadConfig_loads:
  assumes "loads systems files expand (Inr conf)" "\<not> writer sc"
  shows "\<exists>sys \<in> systems. ReloadConfig sys files expand sc =
    Inr (None, sc\<lparr>C := conf, initialised := initialised sc \<union> fst ` set (Modules conf)\<rparr>)"
proof -
  from assms(1) obtain sys where "sys \<in> systems" "LoadFile sys files expand = Inr (Inr conf)"
    by (auto simp: loads_def)
  moreover from this(2) assms(2) have "ReloadConfig sys files expand sc =
      Inr (None, sc\<lparr>C := conf, initialised := initialised sc \<union> fst ` set (Modules conf)\<rparr>)"
    by (simp add: ReloadConfig_def Let_def)
  ultimately show ?thesis by blast
qed

text \<open>Seen from outside, a step does nothing, counts a refusal, or is a whole reload.\<close>

lemma step_outside:
  assumes "step marshal systems files expand s s'" "reload_established systems files expand s"
  shows "outside s' = outside s \<or> (\<exists>e. outside s' = snd (reject e (outside s))) \<or>
    (\<exists>sys \<in> systems. ReloadConfig sys files expand (outside s) = Inr (None, outside s'))"
proof -
  from assms(1) consider "action marshal systems files expand s s'" | "arrive s s'"
    unfolding step_def by blast
  then show ?thesis
  proof cases
    case 1
    then show ?thesis
    proof (rule actionE)
      fix j t sc
      assume "thread_step marshal (barred s) (shared s) (threads s ! j) = Some (t, sc)"
        "s' = s\<lparr>shared := sc, threads := (threads s)[j := t]\<rparr>"
      with thread_step_outside show ?thesis by (fastforce simp: outside_def reject_def)
    next
      fix sys r sc
      assume r: "reload_step sys files expand (shared s) (reloader s) = Some (r, sc)"
        and s': "s' = s\<lparr>shared := sc, reloader := r\<rparr>"
      have "\<not> writer (outside s)" by (simp add: outside_def)
      with reload_step_outside [OF r assms(2) [unfolded reload_established_def], of "outside s" "outside s'"]
      show ?thesis using ReloadConfig_loads by (fastforce simp: outside_def s')
    qed (auto simp: outside_def)
  next
    case 2
    from arrive_effect [OF 2] show ?thesis by (simp add: outside_def)
  qed
qed

end
