(* ===== verification/ServiceProgress.thy ===== *)
theory ServiceProgress
  imports ServiceAnswers
begin

text \<open>
  The goroutines of the exporter do not block each other for ever. Every action brings the work
  that is left down, so without new arrivals there is no infinite run; and when no goroutine can
  act, all requests are answered and the reload goroutine waits at its channels, unless the
  process has died of a panic while loading. No assumption on the scheduler is made.
\<close>

section \<open>Work that is left\<close>

fun work :: "thread \<Rightarrow> nat" where
  "work (ProbeStart q) = (case check_request q of Inl _ \<Rightarrow> 2 | Inr (_, ms) \<Rightarrow> length ms + 6)"
| "work (ProbeLock _ _ ms) = length ms + 5"
| "work (ProbeAuth _ _ ms) = length ms + 4"
| "work (ProbeModules _ _ _ ms _) = length ms + 3"
| "work (ProbeRefuse _) = 2"
| "work (ProbeUnlock _) = 1"
| "work (ProbeReject _) = 1"
| "work PageStart = 3"
| "work PageMarshal = 2"
| "work (PageUnlock _) = 1"
| "work (ReloadStart _) = 1"
| "work _ = 0"

text \<open>A reload that has not begun is more than what is left of any other.\<close>

fun reloads :: "thread \<Rightarrow> nat" where
  "reloads (ReloadStart _) = 8"
| "reloads ReloadSend = 8"
| "reloads _ = 0"

fun stage :: "reloader \<Rightarrow> nat" where
  "stage Waiting = 0"
| "stage (Replying _ _) = 1"
| "stage (Unlocking _) = 2"
| "stage (InitMetrics _ _) = 3"
| "stage (Assigning _ _) = 4"
| "stage (Draining _ _) = 5"
| "stage (WantLock _ _) = 6"
| "stage (Loading _) = 7"

fun metrics_left :: "reloader \<Rightarrow> nat" where
  "metrics_left (InitMetrics ms _) = length ms"
| "metrics_left _ = 0"

definition reload_work :: "service_state \<Rightarrow> nat" where
  "reload_work s = sum_list (map reloads (threads s)) + stage (reloader s) +
     (if hup_pending s then 8 else 0) + (if died s then 0 else 1)"

definition request_work :: "service_state \<Rightarrow> nat" where
  "request_work s = sum_list (map work (threads s)) + metrics_left (reloader s)"

lemma thread_step_work:
  assumes "thread_step marshal b sc t = Some (t', sc')"
  shows "work t' < work t" "reloads t' \<le> reloads t"
  using assms
  by (cases "(marshal, b, sc, t)" rule: thread_step.cases; auto split: sum.splits option.splits if_splits)+

lemma reload_step_work:
  assumes "reload_step sys files expand sc r = Some (r', sc')"
  shows "stage r' < stage r \<or> stage r' = stage r \<and> metrics_left r' < metrics_left r"
  using assms
  by (cases "(sys, files, expand, sc, r)" rule: reload_step.cases) (auto split: sum.splits if_splits)

lemma run_work:
  assumes "action marshal systems files expand s s'"
  shows "(s', s) \<in> measures [reload_work, request_work]"
  using assms
proof (rule actionE)
  fix i t sc
  assume i: "i < length (threads s)"
    and t: "thread_step marshal (barred s) (shared s) (threads s ! i) = Some (t, sc)"
    and s': "s' = s\<lparr>shared := sc, threads := (threads s)[i := t]\<rparr>"
  from thread_step_work [OF t] sum_list_update [OF i, of work t] sum_list_update [OF i, of reloads t]
  show ?thesis by (simp add: s' reload_work_def request_work_def) linarith
next
  fix sys r sc
  assume "reload_step sys files expand (shared s) (reloader s) = Some (r, sc)"
    "s' = s\<lparr>shared := sc, reloader := r\<rparr>"
  with reload_step_work [of sys files expand "shared s" "reloader s" r sc] show ?thesis
    by (auto simp: reload_work_def request_work_def)
next
  fix i assume "i < length (threads s)" "threads s ! i = ReloadSend" "reloader s = Waiting"
    "s' = s\<lparr>threads := (threads s)[i := ReloadWait], reloader := Loading (Client i)\<rparr>"
  with sum_list_update [of i "threads s" reloads ReloadWait] show ?thesis
    by (simp add: reload_work_def)
next
  fix err i assume "reloader s = Replying err (Client i)" "i < length (threads s)" "threads s ! i = ReloadWait"
    "s' = s\<lparr>threads := (threads s)[i := ReloadDone (reload_answer err)], reloader := Waiting\<rparr>"
  with sum_list_update [of i "threads s" reloads "ReloadDone (reload_answer err)"] show ?thesis
    by (simp add: reload_work_def)
qed (auto simp: reload_work_def)

lemma run_terminates: "wfp (\<lambda>s' s. action marshal systems files expand s s')"
proof -
  have "{(s', s). action marshal systems files expand s s'} \<subseteq> measures [reload_work, request_work]"
    using run_work by auto
  then show ?thesis unfolding wfp_def by (rule wf_subset [OF wf_measures])
qed

section \<open>Nobody is stuck\<close>

definition all_done :: "service_state \<Rightarrow> bool" where
  "all_done s \<longleftrightarrow> list_all answered (threads s) \<and> reloader s = Waiting \<and> \<not> hup_pending s"

lemma inside_can_step: "0 < inside t \<Longrightarrow> thread_step marshal b sc t \<noteq> None"
  by (cases "(marshal, b, sc, t)" rule: thread_step.cases) auto

lemma unbarred_can_step:
  "\<not> answered t \<Longrightarrow> t \<noteq> ReloadSend \<Longrightarrow> t \<noteq> ReloadWait \<Longrightarrow> thread_step marshal False sc t \<noteq> None"
  by (cases "(marshal, False, sc, t)" rule: thread_step.cases) auto

lemma reload_can_step:
  "reload_step sys files expand sc r = None \<Longrightarrow> r = Waiting \<or>
    (\<exists>c p. r = Loading c \<and> LoadFile sys files expand = Inl p) \<or>
    (\<exists>conf c. r = Draining conf c \<and> readers sc \<noteq> 0) \<or> (\<exists>err i. r = Replying err (Client i))"
  by (cases "(sys, files, expand, sc, r)" rule: reload_step.cases) (auto split: sum.splits if_splits)

lemma stuck_finished:
  assumes "service_ok s" "sys \<in> systems" "\<not> died s" "\<nexists>s'. action marshal systems files expand s s'"
  shows "all_done s"
proof -
  from assms(1) have lock: "lock_ok s" by (simp add: service_ok_def)
  have no_thread: "thread_step marshal (barred s) (shared s) (threads s ! i) = None"
    if "i < length (threads s)" for i
    using action.thread [OF assms(3) that, of marshal _ _ systems files expand] assms(4)
    by (cases "thread_step marshal (barred s) (shared s) (threads s ! i)") auto
  have "reload_step sys files expand (shared s) (reloader s) = None"
    using action.reload [OF assms(3,2), of files expand _ _ marshal] assms(4)
    by (cases "reload_step sys files expand (shared s) (reloader s)") auto
  from reload_can_step [OF this] have waiting: "reloader s = Waiting"
  proof (elim disjE exE conjE)
    fix c p assume "reloader s = Loading c" "LoadFile sys files expand = Inl p"
    from action.crash [OF assms(3,2) this] assms(4) show ?thesis by blast
  next
    fix conf c assume "reloader s = Draining conf c" and r: "readers (shared s) \<noteq> 0"
    from lock r have "sum_list (map inside (threads s)) \<noteq> 0" unfolding lock_ok_def by metis
    then obtain i where "i < length (threads s)" "0 < inside (threads s ! i)"
      by (auto simp: in_set_conv_nth)
    with inside_can_step no_thread show ?thesis by blast
  next
    fix err i assume r: "reloader s = Replying err (Client i)"
    then have "client (reloader s) = Some i" by simp
    with assms(1) have "i < length (threads s)" "threads s ! i = ReloadWait"
      unfolding service_ok_def clients_ok_def by blast+
    from action.answer [OF assms(3) r this] assms(4) show ?thesis by blast
  qed
  have "\<not> barred s" using lock_okD(3) [OF lock] waiting by (simp add: barred_def)
  have "answered (threads s ! i)" if i: "i < length (threads s)" for i
  proof -
    from waiting have "client (reloader s) = None" by simp
    with assms(1) i have "threads s ! i \<noteq> ReloadWait"
      unfolding service_ok_def clients_ok_def by (metis option.simps(3))
    moreover from action.send [OF assms(3) waiting i] assms(4) have "threads s ! i \<noteq> ReloadSend" by blast
    ultimately show ?thesis using no_thread [OF i] unbarred_can_step \<open>\<not> barred s\<close> by metis
  qed
  moreover from action.hup [OF assms(3) waiting] assms(4) have "\<not> hup_pending s" by blast
  ultimately show ?thesis using waiting by (simp add: all_done_def list_all_length)
qed

text \<open>From every state that is reached, whatever is done next ends, and ends well.\<close>

lemma run_reaches_finish:
  assumes "service_ok s" "sys \<in> systems"
  shows "\<exists>s'. (action marshal systems files expand)\<^sup>*\<^sup>* s s' \<and> (died s' \<or> all_done s')"
  using run_terminates [of marshal systems files expand] assms(1)
proof (induction s rule: wfp_induct_rule)
  case (less s)
  show ?case
  proof (cases "died s \<or> all_done s")
    case False
    with stuck_finished [OF less.prems assms(2)] obtain s1 where s1: "action marshal systems files expand s s1"
      by blast
    from s1 less.prems have "service_ok s1" by (auto intro: service_ok_step simp: step_def)
    from less.IH [OF s1 this] s1 show ?thesis by (meson converse_rtranclp_into_rtranclp)
  qed blast
qed

section \<open>Start-up\<close>

definition initial_config :: SafeConfig where
  "initial_config = \<lparr>readers = 0, writer = False, C = \<lparr>Auths = [], Modules = [], config_Version = 0\<rparr>,
     initialised = {}, request_errors = 0\<rparr>"

lemma startup_ok:
  assumes "startup sys files expand dryRun initial_config = Inr (Running, sc)"
  shows "service_ok (started sc)" "reload_established systems files expand (started sc)"
proof -
  from assms obtain err where r: "ReloadConfig sys files expand initial_config = Inr (err, sc)"
    and e: "err = None"
    by (auto simp: startup_def split: option.splits)
  from r e obtain conf where "sc = initial_config\<lparr>writer := False, C := conf, initialised := fst ` set (Modules conf)\<rparr>"
  proof (cases "LoadFile sys files expand")
    case (Inr l) with r e that show ?thesis
      by (cases l) (auto simp: ReloadConfig_def Let_def initial_config_def)
  qed (simp add: ReloadConfig_def)
  then have "unlocked sc" "fst ` set (Modules (C sc)) \<subseteq> initialised sc"
    by (simp_all add: unlocked_def initial_config_def)
  then show "service_ok (started sc)" by (rule service_ok_started)
  show "reload_established systems files expand (started sc)"
    by (simp add: reload_established_def started_def)
qed

end
