(* ===== verification/ServiceSafe.thy ===== *)
theory ServiceSafe
  imports ServiceProgress NoPanic
begin

text \<open>
  The process from configuration files to samples: when every configuration that is loaded only
  has modules on which the collector does not panic, no request that is ever served makes it
  panic, whatever the requests, the reloads and the devices do.
\<close>

section \<open>Safe configurations\<close>

definition named_safe :: "runtime \<Rightarrow> string \<times> Module option \<Rightarrow> bool" where
  "named_safe rt e = (case snd e of None \<Rightarrow> False | Some m \<Rightarrow> module_safe rt m)"

definition config_safe :: "runtime \<Rightarrow> Config \<Rightarrow> bool" where
  "config_safe rt cfg \<longleftrightarrow> list_all (\<lambda>a. snd a \<noteq> None) (Auths cfg) \<and> list_all (named_safe rt) (Modules cfg)"

definition loads_safe :: "runtime \<Rightarrow> system set \<Rightarrow> string list \<Rightarrow> bool \<Rightarrow> bool" where
  "loads_safe rt systems files expand \<longleftrightarrow>
     (\<forall>sys \<in> systems. \<forall>conf. LoadFile sys files expand = Inr (Inr conf) \<longrightarrow> config_safe rt conf)"

definition served_safe :: "runtime \<Rightarrow> served \<Rightarrow> bool" where
  "served_safe rt s \<longleftrightarrow> srv_auth s \<noteq> None \<and> list_all (named_safe rt) (srv_modules s)"

section \<open>What goroutines carry\<close>

fun carries_safe :: "runtime \<Rightarrow> thread \<Rightarrow> bool" where
  "carries_safe rt (ProbeModules _ _ auth _ nmodules) \<longleftrightarrow> auth \<noteq> None \<and> list_all (named_safe rt) nmodules"
| "carries_safe rt (ProbeUnlock s) \<longleftrightarrow> served_safe rt s"
| "carries_safe rt (ProbeDone (Inr s)) \<longleftrightarrow> served_safe rt s"
| "carries_safe rt _ \<longleftrightarrow> True"

fun holds_safe :: "runtime \<Rightarrow> reloader \<Rightarrow> bool" where
  "holds_safe rt (WantLock conf _) \<longleftrightarrow> config_safe rt conf"
| "holds_safe rt (Draining conf _) \<longleftrightarrow> config_safe rt conf"
| "holds_safe rt (Assigning conf _) \<longleftrightarrow> config_safe rt conf"
| "holds_safe rt _ \<longleftrightarrow> True"

definition service_safe :: "runtime \<Rightarrow> service_state \<Rightarrow> bool" where
  "service_safe rt s \<longleftrightarrow> config_safe rt (C (shared s)) \<and> holds_safe rt (reloader s) \<and>
     list_all (carries_safe rt) (threads s)"

lemma thread_step_safe:
  assumes "thread_step marshal b sc t = Some (t', sc')" "carries_safe rt t" "config_safe rt (C sc)"
  shows "carries_safe rt t' \<and> C sc' = C sc"
proof -
  have auth: "auth \<noteq> None" if "map_of (Auths (C sc)) a = Some auth" for a auth
    using map_of_SomeD [OF that] assms(3) by (auto simp: config_safe_def list_all_iff)
  have modu: "named_safe rt (m, x)" if "map_of (Modules (C sc)) m = Some x" for m x
    using map_of_SomeD [OF that] assms(3) by (auto simp: config_safe_def list_all_iff)
  from assms(1,2) auth modu show ?thesis
    by (cases "(marshal, b, sc, t)" rule: thread_step.cases)
      (auto simp: RLock_def RUnlock_def serve_def served_safe_def split: sum.splits option.splits if_splits)
qed

lemma reload_step_safe:
  assumes "reload_step sys files expand sc r = Some (r', sc')" "sys \<in> systems" "loads_safe rt systems files expand"
    "holds_safe rt r" "config_safe rt (C sc)"
  shows "holds_safe rt r' \<and> config_safe rt (C sc')"
  using assms
  by (cases "(sys, files, expand, sc, r)" rule: reload_step.cases)
    (auto simp: loads_safe_def split: sum.splits if_splits)

lemma list_all_update: "list_all P xs \<Longrightarrow> P x \<Longrightarrow> list_all P (xs[i := x])"
  by (auto simp: list_all_iff dest: set_update_subset_insert [THEN subsetD])

lemma service_safe_step:
  assumes "step marshal systems files expand s s'" "loads_safe rt systems files expand" "service_safe rt s"
  shows "service_safe rt s'"
proof -
  from assms(1) consider "action marshal systems files expand s s'" | "arrive s s'"
    unfolding step_def by blast
  then show ?thesis
  proof cases
    case 1
    then show ?thesis
    proof (rule actionE)
      fix i t sc
      assume i: "i < length (threads s)"
        and t: "thread_step marshal (barred s) (shared s) (threads s ! i) = Some (t, sc)"
        and s': "s' = s\<lparr>shared := sc, threads := (threads s)[i := t]\<rparr>"
      from i assms(3) have "carries_safe rt (threads s ! i)" by (simp add: service_safe_def list_all_length)
      from thread_step_safe [OF t this] assms(3) s' show ?thesis
        by (simp add: service_safe_def list_all_update)
    next
      fix sys r sc
      assume "sys \<in> systems" "reload_step sys files expand (shared s) (reloader s) = Some (r, sc)"
        "s' = s\<lparr>shared := sc, reloader := r\<rparr>"
      with reload_step_safe assms(2,3) show ?thesis by (simp add: service_safe_def)
    qed (use assms(3) in \<open>auto simp: service_safe_def list_all_update\<close>)
  next
    case 2
    then show ?thesis
    proof (rule arriveE)
      fix t assume "starting t" "s' = s\<lparr>threads := threads s @ [t]\<rparr>"
      with assms(3) show ?thesis by (cases t) (auto simp: service_safe_def)
    qed (use assms(3) in \<open>simp add: service_safe_def\<close>)
  qed
qed

lemma service_safe_steps:
  "(step marshal systems files expand)\<^sup>*\<^sup>* s s' \<Longrightarrow> loads_safe rt systems files expand \<Longrightarrow> service_safe rt s
    \<Longrightarrow> service_safe rt s'"
  by (induction rule: rtranclp_induct) (auto intro: service_safe_step)

lemma startup_safe:
  assumes "startup sys files expand dryRun initial_config = Inr (Running, sc)" "sys \<in> systems"
    "loads_safe rt systems files expand"
  shows "service_safe rt (started sc)"
proof -
  from assms(1) have "ReloadConfig sys files expand initial_config = Inr (None, sc)"
    by (auto simp: startup_def split: option.splits)
  from ReloadConfig_state [OF this] assms(2,3) have "config_safe rt (C sc)" by (auto simp: loads_safe_def)
  then show ?thesis by (simp add: service_safe_def started_def)
qed

section \<open>The collector of a request\<close>

lemma served_modules:
  "list_all (named_safe rt) nms \<Longrightarrow>
   \<exists>ms. mapG (\<lambda>(name, m). case m of None \<Rightarrow> Inl NilDereference | Some module \<Rightarrow> Inr (name, module)) nms = Inr ms \<and>
     (\<forall>nm \<in> set ms. module_safe rt (snd nm))"
proof (induction nms)
  case (Cons nm nms)
  obtain name m where nm: "nm = (name, m)" by (cases nm)
  with Cons.prems obtain x where "m = Some x" "module_safe rt x"
    by (auto simp: named_safe_def split: option.splits)
  moreover from Cons obtain ms where
    "mapG (\<lambda>(name, m). case m of None \<Rightarrow> Inl NilDereference | Some module \<Rightarrow> Inr (name, module)) nms = Inr ms"
    "\<forall>nm \<in> set ms. module_safe rt (snd nm)" by auto
  ultimately show ?case by (intro exI [of _ "(name, x) # ms"]) (simp add: nm)
qed simp

lemma collector_of_safe:
  assumes "served_safe rt s"
  obtains coll where "collector_of concurrency srcAddress s = Inr coll"
    "\<forall>nm \<in> set (coll_modules coll). module_safe rt (snd nm)"
proof -
  from assms obtain auth where a: "srv_auth s = Some auth" by (auto simp: served_safe_def)
  from assms served_modules obtain ms where
    m: "mapG (\<lambda>(name, m). case m of None \<Rightarrow> Inl NilDereference | Some module \<Rightarrow> Inr (name, module)) (srv_modules s) = Inr ms"
    "\<forall>nm \<in> set ms. module_safe rt (snd nm)" unfolding served_safe_def by blast
  from a m(1) have "collector_of concurrency srcAddress s = Inr \<lparr>coll_target = srv_target s, coll_auth = auth,
      coll_modules = ms, coll_concurrency = concurrency, coll_context = srv_context s,
      coll_engineID = srv_engineID s, coll_srcAddress = srcAddress\<rparr>"
    by (simp add: collector_of_def)
  from that [OF this] m(2) show ?thesis by simp
qed

end
