(* ===== verification/ServiceExample.thy ===== *)
theory ServiceExample
  imports GenExample GenSafe ServiceSafe
begin

text \<open>
  Runs of the exporter on which the properties of its goroutines are evaluated: one request that
  runs alone, and a POST that reloads the configuration.
\<close>

section \<open>Runs of one goroutine\<close>

definition alone :: "SafeConfig \<Rightarrow> thread \<Rightarrow> reloader \<Rightarrow> service_state" where
  "alone sc t r = \<lparr>shared = sc, threads = [t], reloader = r, hup_pending = False, died = False\<rparr>"

fun run_thread :: "encoder \<Rightarrow> nat \<Rightarrow> SafeConfig \<Rightarrow> thread \<Rightarrow> (thread \<times> SafeConfig) option" where
  "run_thread marshal 0 sc t = Some (t, sc)"
| "run_thread marshal (Suc n) sc t = (case thread_step marshal (writer sc) sc t of
     None \<Rightarrow> None | Some (t', sc') \<Rightarrow> run_thread marshal n sc' t')"

fun run_reloader :: "system \<Rightarrow> string list \<Rightarrow> bool \<Rightarrow> nat \<Rightarrow> SafeConfig \<Rightarrow> reloader \<Rightarrow> (reloader \<times> SafeConfig) option" where
  "run_reloader sys files expand 0 sc r = Some (r, sc)"
| "run_reloader sys files expand (Suc n) sc r = (case reload_step sys files expand sc r of
     None \<Rightarrow> None | Some (r', sc') \<Rightarrow> run_reloader sys files expand n sc' r')"

lemma arrive_alone: "starting t \<Longrightarrow> step marshal systems files expand (started sc) (alone sc t Waiting)"
  using arrive.request [of t "started sc"] by (simp add: step_def started_def alone_def)

lemma run_thread_steps:
  "run_thread marshal n sc t = Some (t', sc') \<Longrightarrow>
   (step marshal systems files expand)\<^sup>*\<^sup>* (alone sc t Waiting) (alone sc' t' Waiting)"
proof (induction n arbitrary: sc t)
  case (Suc n)
  then obtain u sd where u: "thread_step marshal (writer sc) sc t = Some (u, sd)"
    and r: "run_thread marshal n sd u = Some (t', sc')" by (auto split: option.splits)
  from u action.thread [of "alone sc t Waiting" 0 marshal u sd systems files expand]
  have "step marshal systems files expand (alone sc t Waiting) (alone sd u Waiting)"
    by (simp add: step_def alone_def barred_def)
  with Suc.IH [OF r] show ?case by (meson converse_rtranclp_into_rtranclp)
qed simp

lemma run_reloader_steps:
  "run_reloader sys files expand n sc r = Some (r', sc') \<Longrightarrow> sys \<in> systems \<Longrightarrow>
   (step marshal systems files expand)\<^sup>*\<^sup>* (alone sc t r) (alone sc' t r')"
proof (induction n arbitrary: sc r)
  case (Suc n)
  then obtain u sd where u: "reload_step sys files expand sc r = Some (u, sd)"
    and r: "run_reloader sys files expand n sd u = Some (r', sc')" by (auto split: option.splits)
  from u Suc.prems(2) action.reload [of "alone sc t r" sys systems files expand u sd marshal]
  have "step marshal systems files expand (alone sc t r) (alone sd t u)"
    by (simp add: step_def alone_def)
  with Suc.IH [OF r Suc.prems(2)] show ?case by (meson converse_rtranclp_into_rtranclp)
qed simp

section \<open>A request\<close>

definition example_running :: SafeConfig where
  "example_running = initial_config\<lparr>C := example_loaded, initialised := {''if_mib''}\<rparr>"

lemma example_startup:
  "startup example_system [''snmp.yml''] False False initial_config = Inr (Running, example_running)"
  by (simp add: startup_def ReloadConfig_def LoadFile_def example_system_def initial_config_def
      example_loaded_def example_running_def Let_def)

definition example_query :: query where
  "example_query = (\<lambda>_. [])(''target'' := [''sw1''])"

definition example_served :: served where
  "example_served = \<lparr>srv_target = ''sw1'', srv_authName = ''public_v2'', srv_auth = Some DefaultAuth,
     srv_modules = [(''if_mib'', Some DefaultModule)], srv_context = [], srv_engineID = []\<rparr>"

lemma example_probe:
  "run_thread marshal 6 example_running (ProbeStart example_query) = Some (ProbeDone (Inr example_served), example_running)"
proof -
  have c: "check_request example_query = Inr (''public_v2'', [''if_mib''])" by code_simp
  have s: "serve example_query ''public_v2'' (Some DefaultAuth) [(''if_mib'', Some DefaultModule)] = example_served"
    by code_simp
  show ?thesis
    by (simp add: c s eval_nat_numeral RLock_def RUnlock_def example_running_def initial_config_def
        example_loaded_def)
qed

lemma example_probe_steps:
  "(step marshal systems files expand)\<^sup>*\<^sup>* (alone example_running (ProbeStart example_query) Waiting)
     (alone example_running (ProbeDone (Inr example_served)) Waiting)"
  by (rule run_thread_steps [OF example_probe])

section \<open>A reload\<close>

lemma example_reload:
  "run_reloader example_system [''snmp.yml''] False 7 example_running (Loading (Client 0)) =
     Some (Replying None (Client 0), example_running)"
  by (simp add: eval_nat_numeral example_running_def initial_config_def LoadFile_def example_system_def
      example_loaded_def)

lemma example_reload_steps:
  "(step marshal {example_system} [''snmp.yml''] False)\<^sup>*\<^sup>* (alone example_running (ReloadStart POST) Waiting)
     (alone example_running (ReloadDone ReloadOK) Waiting)"
proof -
  let ?S = "step marshal {example_system} [''snmp.yml''] False"
  let ?sc = "example_running"
  have "?S\<^sup>*\<^sup>* (alone ?sc (ReloadStart POST) Waiting) (alone ?sc ReloadSend Waiting)"
    by (rule run_thread_steps [where n = 1]) simp
  moreover have "?S (alone ?sc ReloadSend Waiting) (alone ?sc ReloadWait (Loading (Client 0)))"
    using action.send [of "alone ?sc ReloadSend Waiting" 0 marshal] by (simp add: step_def alone_def)
  moreover have "?S\<^sup>*\<^sup>* (alone ?sc ReloadWait (Loading (Client 0))) (alone ?sc ReloadWait (Replying None (Client 0)))"
    by (rule run_reloader_steps [OF example_reload]) simp
  moreover have "?S (alone ?sc ReloadWait (Replying None (Client 0))) (alone ?sc (ReloadDone ReloadOK) Waiting)"
    using action.answer [of "alone ?sc ReloadWait (Replying None (Client 0))" None 0 marshal]
    by (simp add: step_def alone_def)
  ultimately show ?thesis
    by (meson rtranclp.rtrancl_into_rtrancl rtranclp_trans)
qed

lemma example_loads_safe: "loads_safe example_runtime {example_system} [''snmp.yml''] False"
  by (simp add: loads_safe_def LoadFile_def example_system_def example_loaded_def config_safe_def named_safe_def
      module_safe_def DefaultModule_def DefaultWalkParams_def)

end
