(* ===== verification/Spec2Isabelle.thy ===== *)
theory Spec2Isabelle
  imports DisplayHintSpec ServiceExample
begin

text \<open>
  snmp_exporter, modelled from its source: an exporter that asks network devices for SNMP
  variables and turns them into Prometheus samples, and a generator that makes the exporter's
  configuration out of MIB files.

  The parts of the program and how they interact. A request to \<open>main.go\<close> names a target, an auth and
  modules; the handler looks them up in the configuration that \<open>config/config.go\<close> loaded and builds a
  collector (\<open>collector/collector.go\<close>). Its workers each open a session through the interface of
  \<open>scraper/scraper.go\<close> (the gosnmp library behind \<open>scraper/gosnmp.go\<close>, or \<open>scraper/mock.go\<close>), take modules
  off a channel, scrape the target (dynamic filters, GETs in batches, walks), match each variable
  with a metric by its OID and make samples: indexes of the OID become labels, lookups add labels of
  other variables, values become numbers or texts (\<open>collector/display_hint.go\<close> formats the latter).
  The modules are written by the generator: \<open>generator/net_snmp.go\<close> builds a tree of MIB nodes,
  \<open>generator/tree.go\<close> prepares it and generates a module for each entry of generator.yml
  (\<open>generator/config.go\<close>), \<open>generator/main.go\<close> writes the file. While requests are served, the
  configuration can be replaced, on a signal or by a request; it is shared behind a read-write lock.

  Theories and what they model.
  Prelude: panics as values (\<open>Inl\<close> a panic, \<open>Inr\<close> a result), loops that may panic, Go's \<open>int\<close>.
  GoStrings, GoUTF8, GoFloat, GoTime: what the source uses of \<open>strings\<close>, \<open>strconv\<close>, \<open>fmt\<close>,
  \<open>unicode/utf8\<close>, \<open>float64\<close> and \<open>time\<close>.
  DisplayHint, DisplayHintSpec: \<open>applyDisplayHint\<close>, and RFC 2579 in two phases as its specification.
  Config, ConfigOps: the structs; defaults, validation, session settings, secrets, environment
  variables, \<open>LoadFile\<close>. ConfigView: what the YAML encoder is given of a configuration.
  Oid, IndexOids, MetricTree, Pdu, Labels, Samples: the path from a variable to samples.
  Scraper, Scrape: targets and sessions; \<open>ScrapeTarget\<close>. The state of a session is a type parameter
  \<open>'c\<close> and the interface a record of functions on it.
  Collect, NoPanic: \<open>collect\<close> for one module and the pool of workers as a step relation on its state
  (pending modules, the state of each worker, the channel of samples, cancelled, closed, crashed).
  Exporter: the handlers, the shared configuration with its lock, the routes and the start-up, each
  operation as one step.
  Service: the same as goroutines. The state has the shared configuration, a list of requests, each
  at a place between two actions of its handler, and the reload goroutine likewise; \<open>action\<close> is one action
  of one of them or of two at a channel, \<open>arrive\<close> a request or a signal from outside, and the files
  that a reload reads may differ from load to load. Its invariants. ServiceAnswers: what is answered,
  and the refinement of the operations of Exporter. ServiceProgress: that it finishes. ServiceSafe:
  what requests carry is safe for the collector.
  InitSNMP: \<open>initSNMP\<close>, which captures what net-snmp prints, on a table of file descriptors.
  MibTree: nodes in a heap, built from a C tree that is the input; copies. A pointer to a node is a
  \<open>shape\<close>, its address with its children, since children never change after they are built.
  OidCover, NodeSearch: \<open>minimizeOids\<close>, \<open>searchNodeTree\<close>, \<open>metricType\<close> and the other small functions.
  PrepareTree, Generate, GenMain: \<open>prepareTree\<close>, \<open>generateConfigModule\<close> phase by phase, \<open>generateConfig\<close>
  and the commands. GenerateFacts, Fetched, GenSafe: what is shown of generated modules.
  Example, GenExample, ServiceExample: concrete inputs and runs for the witnesses, and inputs on
  which the code fails.

  Conventions. A Go map is an association list; where the code ranges over a map the order of the
  list is the order of the range, so a theorem over all lists covers every order Go may choose.
  Pointers that may be nil are options. Errors are values of a sum type. Machine integers are words or
  integers with the wrap-around written out. Code outside the repository is a parameter: the regexp,
  timefmt and float printing functions and the Prometheus client in \<open>runtime\<close>, gosnmp in
  \<open>gosnmp_lib\<close>, files, YAML and the environment in \<open>system\<close> and \<open>gen_system\<close>; what is assumed of them
  (\<open>range_ok\<close>, \<open>formats_ok\<close>, \<open>prom_ok\<close>, \<open>lib_ok\<close>) is documented behaviour and holds for the runtime
  of Example.

  Loops. The loop over GETs and the one over a display hint are \<open>partial_function\<close>s, so that not
  returning is the value \<open>None\<close>; that they return is proved, with no fuel. Everything else is
  structural recursion or has a measure. The goroutines terminate by two measures in lexicographic
  order, the reloads that are left and the actions that are left to the requests.

  What the groups of lemmas show. Round trips: OIDs, indexes, targets. Equivalences: display hints
  with the RFC, the Go tree with a tree computed without a heap, \<open>minimizeOids\<close> with the set of minimal
  OIDs. Concurrency: requests are atomic, a reload is answered truthfully, the goroutines refine the
  operations as single steps, nothing deadlocks. Functional: search trees, labels, enumerations, bits,
  dates, counters, filters, requests, substitution, targets. Safety: no answer of a device makes a well-configured exporter panic; all
  samples are ones Prometheus accepts; no worker is stuck and no module is scraped twice; a generated
  module has types the exporter knows, fetches what it exports and, read back, cannot make the
  collector panic; secrets are not shown. Errors: inputs on which the code
  panics, loses rows or leaks settings are proved as such.
  Interfaces that several proofs share are locales (\<open>prefix_index\<close>, \<open>codec\<close>, \<open>subtrees_order\<close>,
  \<open>subtrees_reduction\<close>, \<open>call_log\<close>,
  \<open>wire_scraper\<close>, \<open>metric_invariant\<close>), each interpreted on the model's own definitions where they are defined.

  Not modelled: the registration of metrics, flags, logging, the HTTP server, the contents of the
  landing page, and durations, which only call libraries; patterns of routes other than plain paths.
  In the pool a step is the whole scrape of a module, not a packet of it; a request that is served
  leaves the goroutines of Service for a pool of its own, which shares nothing with them but the
  configuration it was given, which nobody changes in place. Static filters are modelled, but the
  property that a module fetches what it exports is stated for modules without them.
\<close>

text \<open>
  C1. No answer of a device makes the exporter panic: over a library that decodes well-typed
  variables, the pool of workers never reaches a crashed state when every module only uses
  types the collector knows, sets its retries, compiles its filter expressions and gives every
  regex_extract an expression.
\<close>

theorem collect_no_panic:
  assumes "lib_ok lib" and "\<forall>nm \<in> set (coll_modules coll). module_safe rt (snd nm)" and "range_pdus_ok env"
    and "reachable (\<lambda>i. worker_start lib coll (net i))
      (\<lambda>nm mx w. collect (gosnmp_scraper lib) rt env (coll_target coll) (coll_auth coll) nm mx w)
      coll metrics s"
  shows "crashed s = None"
  using wire_scraper.pool_safe [OF gosnmp_wire_scraper [OF assms(1)] assms(4) _ assms(2,3)] by simp

theorem collect_no_panic_witness:
  "crashed (pool_init example_collector example_metrics :: unit wrapper pool) = None"
  by (rule collect_no_panic [OF example_lib_ok _ example_surroundings_ok reachable.init,
        where rt = example_runtime])
    (simp add: example_collector_def)

text \<open>
  C2. From the files to the samples: when every configuration that can be loaded only has
  modules on which the collector does not panic and no empty auth, then every request that the
  running exporter ever serves gives a collector, and no interleaving of its workers and no
  answer of a device makes that collector panic.
\<close>

theorem served_request_no_panic:
  assumes "startup sys files expand dryRun initial_config = Inr (Running, sc)" "sys \<in> systems"
    and "loads_safe rt systems files expand" "lib_ok lib" "range_pdus_ok env"
    and "(step marshal systems files expand)\<^sup>*\<^sup>* (started sc) s"
    and "i < length (threads s)" "threads s ! i = ProbeDone (Inr srv)"
  shows "\<exists>coll. collector_of concurrency srcAddress srv = Inr coll \<and>
    (\<forall>p. reachable (\<lambda>i. worker_start lib coll (net i))
        (\<lambda>nm mx w. collect (gosnmp_scraper lib) rt env (coll_target coll) (coll_auth coll) nm mx w) coll metrics p
      \<longrightarrow> crashed p = None)"
proof -
  from service_safe_steps [OF assms(6,3) startup_safe [OF assms(1-3)]] assms(7,8)
  have "served_safe rt srv" by (fastforce simp: service_safe_def list_all_length)
  then obtain coll where c: "collector_of concurrency srcAddress srv = Inr coll"
    and m: "\<forall>nm \<in> set (coll_modules coll). module_safe rt (snd nm)" by (rule collector_of_safe)
  have "crashed p = None" if "reachable (\<lambda>i. worker_start lib coll (net i))
      (\<lambda>nm mx w. collect (gosnmp_scraper lib) rt env (coll_target coll) (coll_auth coll) nm mx w) coll metrics p" for p
    using wire_scraper.pool_safe [OF gosnmp_wire_scraper [OF assms(4)] that _ m assms(5)] by simp
  with c show ?thesis by blast
qed

theorem served_request_no_panic_witness:
  "\<exists>coll. collector_of 1 [] example_served = Inr coll \<and>
     crashed (pool_init coll example_metrics :: unit wrapper pool) = None"
proof -
  let ?S = "step (\<lambda>_. Inr []) {example_system} [''snmp.yml''] False"
  have "?S (started example_running) (alone example_running (ProbeStart example_query) Waiting)"
    by (rule arrive_alone) simp
  then have "?S\<^sup>*\<^sup>* (started example_running) (alone example_running (ProbeDone (Inr example_served)) Waiting)"
    using example_probe_steps by (rule converse_rtranclp_into_rtranclp)
  from served_request_no_panic [OF example_startup _ example_loads_safe example_lib_ok example_surroundings_ok this,
      of 0 example_served 1 "[]"]
  show ?thesis using reachable.init by (fastforce simp: alone_def)
qed

text \<open>
  C3. No request sees parts of two configurations: in the running exporter, whatever requests,
  signals and reloads interleave with its steps, a scrape or a view of the configuration that
  was answered has the answer that its handler, run in one step, gives for the configuration
  in use at some moment between its arrival and its answer.
\<close>

theorem requests_atomic:
  assumes "startup sys files expand dryRun initial_config = Inr (Running, sc)"
    and "(step marshal systems files expand)\<^sup>*\<^sup>* (started sc) s0"
    and "(step marshal systems files expand)\<^sup>*\<^sup>* s0 s"
    and "i < length (threads s0)" "looks_up (threads s0 ! i)" "answered (threads s ! i)"
  shows "\<exists>s1. (step marshal systems files expand)\<^sup>*\<^sup>* s0 s1 \<and> (step marshal systems files expand)\<^sup>*\<^sup>* s1 s \<and>
    threads s ! i = atomic_answer marshal (threads s0 ! i) (shared s1)"
  by (rule request_atomic [OF assms(3) service_ok_steps [OF assms(2) startup_ok(1) [OF assms(1)]] assms(4-6)])

theorem requests_atomic_witness:
  "\<exists>s1. (step (\<lambda>_. Inr []) {example_system} [''snmp.yml''] False)\<^sup>*\<^sup>*
       (alone example_running (ProbeStart example_query) Waiting) s1 \<and>
     Inr example_served = fst (handler example_query (shared s1))"
proof -
  let ?S = "step (\<lambda>_. Inr []) {example_system} [''snmp.yml''] False"
  let ?a = "alone example_running (ProbeStart example_query) Waiting"
    and ?b = "alone example_running (ProbeDone (Inr example_served)) Waiting"
  have "?S\<^sup>*\<^sup>* (started example_running) ?a" by (intro r_into_rtranclp arrive_alone) simp
  then have "\<exists>s1. ?S\<^sup>*\<^sup>* ?a s1 \<and> ?S\<^sup>*\<^sup>* s1 ?b \<and> threads ?b ! 0 = atomic_answer (\<lambda>_. Inr []) (threads ?a ! 0) (shared s1)"
    by (rule requests_atomic [OF example_startup _ example_probe_steps]) (simp_all add: alone_def)
  then obtain s1 where 1: "?S\<^sup>*\<^sup>* ?a s1"
    and "threads ?b ! 0 = atomic_answer (\<lambda>_. Inr []) (threads ?a ! 0) (shared s1)" by blast
  from this(2) have "Inr example_served = fst (handler example_query (shared s1))" by (simp add: alone_def)
  with 1 show ?thesis by blast
qed

text \<open>
  C4. The tree search of collect finds, for a variable, the metric whose OID is the shortest
  configured prefix of the variable's OID (the last metric configured for that OID), and hands
  the rest on as indexes; it finds nothing exactly when no prefix is configured.
\<close>

theorem find_metric_shortest:
  "find_metric (buildMetricTree metrics) oids = Some (m, rest) \<longleftrightarrow>
   (\<exists>p. p \<noteq> [] \<and> oids = p @ rest \<and> map_of (rev (metric_entries metrics)) p = Some m \<and>
      (\<forall>q r. p = q @ r \<longrightarrow> q \<noteq> [] \<longrightarrow> r \<noteq> [] \<longrightarrow> map_of (rev (metric_entries metrics)) q = None))"
  unfolding find_metric_Some metric_at_build by (rule refl)

theorem find_metric_shortest_witness:
  "find_metric (buildMetricTree [example_metric ''1.3'' ''gauge'', example_metric ''1.3.7'' ''counter''])
     [1, 3, 7] = Some (example_metric ''1.3'' ''gauge'', [7])"
  unfolding find_metric_shortest
  by (intro exI [of _ "[1, 3]"])
    (simp add: metric_entries_def example_oids example_metric_def Cons_eq_append_conv)

text \<open>
  C5. The exporter does not deadlock: from every state it reaches, whatever requests and
  signals are pending and however the scheduler chooses, there is no infinite run without new
  arrivals, and a state without a next step is one where every request is answered and the
  reload goroutine is back at its channels, unless loading a file has panicked.
\<close>

theorem service_always_finishes:
  assumes "startup sys files expand dryRun initial_config = Inr (Running, sc)"
    and "(step marshal systems files expand)\<^sup>*\<^sup>* (started sc) s" "sys' \<in> systems"
  shows "wfp (\<lambda>s' s. action marshal systems files expand s s') \<and>
    (died s \<or> all_done s \<or> (\<exists>s'. action marshal systems files expand s s'))"
proof -
  have "service_ok s" by (rule service_ok_steps [OF assms(2) startup_ok(1) [OF assms(1)]])
  from stuck_finished [OF this assms(3)] run_terminates show ?thesis by blast
qed

theorem service_always_finishes_witness:
  "all_done (alone example_running (ProbeStart example_query) Waiting) \<or>
   (\<exists>s'. action (\<lambda>_. Inr []) {example_system} [''snmp.yml''] False
      (alone example_running (ProbeStart example_query) Waiting) s')"
proof -
  let ?S = "step (\<lambda>_. Inr []) {example_system} [''snmp.yml''] False"
  have "?S\<^sup>*\<^sup>* (started example_running) (alone example_running (ProbeStart example_query) Waiting)"
    by (intro r_into_rtranclp arrive_alone) simp
  from service_always_finishes [OF example_startup this, of example_system] show ?thesis
    by (simp add: alone_def)
qed

text \<open>
  C6. A generated module fetches what it exports: when no static filter takes walks away,
  every metric of the module lies in a subtree that the module walks, or has an instance that
  it walks or gets, after all redundant OIDs have been removed.
\<close>

theorem generated_metrics_fetched:
  assumes "generateConfigModule cfg node nameToNode h0 = (Inr (Inr out), h)"
    and "gen_tree_ok h0 node nameToNode" "leaves_ok h node" and "filters_Static (mc_Filters cfg) = []"
  shows "list_all (\<lambda>m. fetched out (metric_Oid m)) (module_Metrics out)"
  using metric_fetched [OF assms] by (simp add: list_all_iff)

theorem generated_metrics_fetched_witness:
  "list_all (\<lambda>m. fetched example_generated (metric_Oid m)) (module_Metrics example_generated)"
proof -
  obtain h where h: "generateConfigModule example_module_config example_tree example_names example_heap =
      (Inr (Inr example_generated), h)"
    using example_generates by (metis prod.collapse)
  then have "h = snd (generateConfigModule example_module_config example_tree example_names example_heap)"
    by simp
  then have "leaves_ok h example_tree" using example_leaves by simp
  with h show ?thesis
    by (rule generated_metrics_fetched [OF _ example_tree_ok]) (simp add: example_module_config_def)
qed



text \<open>
  C8. However the workers interleave, no module is scraped twice or invented, and when Collect
  returns without a cancelled context every module of the request has been scraped exactly
  once.
\<close>

theorem modules_scraped_once:
  assumes "reachable start run coll metrics s"
  shows "mset (finished s) \<subseteq># mset (coll_modules coll) \<and>
    (returned s \<longrightarrow> \<not> cancelled s \<longrightarrow> mset (finished s) = mset (coll_modules coll))"
  using finished_once [OF assms] finished_all [OF assms] by blast

theorem modules_scraped_once_witness:
  "mset (finished example_end) = {#(''if_mib'', example_module)#}"
  using modules_scraped_once [OF example_end_reachable]
  by (simp add: example_end_def returned_def example_collector_def)







text \<open>
  C12. A scrape without error asks the device for exactly these, in this order: the OID of
  each filter, then the GET list left by the filters, every OID once, in batches of at least
  one and at most max-repetitions OIDs (one for SNMPv1), then each subtree left to walk.
\<close>

theorem scrape_requests_log:
  assumes "ScrapeTarget (logged snmp) rt target auth module mx (c, []) =
    Some (Inr ((pdus, None), mx', (c', log)))"
  shows "\<exists>st c1 bs.
    foldG (apply_filter (logged snmp) rt) (module_Filters module) (filter_init module, mx, c, []) =
      Inr (st, mx', c1) \<and>
    log = map (\<lambda>f. ReqWalk (filter_Oid f)) (module_Filters module) @ map ReqGet bs
      @ map ReqWalk (newWalk st) \<and>
    concat bs = apply_targets st (module_Get module) \<and>
    (\<forall>b \<in> set bs. b \<noteq> [] \<and> length b \<le> maxOids_of auth module)"
proof -
  from logged.log_ScrapeTarget [OF assms] obtain st c1 where
    f: "foldG (apply_filter (logged snmp) rt) (module_Filters module) (filter_init module, mx, c, []) =
      Inr (st, mx', c1)" and
    l: "log = map (\<lambda>f. ReqWalk (filter_Oid f)) (module_Filters module)
       @ map ReqGet (batches (maxOids_of auth module) (apply_targets st (module_Get module)))
       @ map ReqWalk (newWalk st)"
    by (auto simp: fold_snoc)
  let ?bs = "batches (maxOids_of auth module) (apply_targets st (module_Get module))"
  have "concat ?bs = apply_targets st (module_Get module)" by (simp add: concat_batches maxOids_pos)
  with f l length_batches show ?thesis by blast
qed

theorem scrape_requests_log_witness:
  "\<exists>bs. [ReqGet [''1.4.0'', ''1.5.0''], ReqWalk ''1.3''] = map ReqGet bs @ [ReqWalk ''1.3''] \<and>
    concat bs = [''1.4.0'', ''1.5.0''] \<and> list_all (\<lambda>b. b \<noteq> [] \<and> length b \<le> 25) bs"
proof -
  let ?m0 = "NewMockSNMPScraper Map.empty Map.empty"
  have max: "maxOids_of DefaultAuth example_module = 25"
    by (simp add: maxOids_of_def example_module_def DefaultModule_def DefaultWalkParams_def DefaultAuth_def)
  have "\<exists>pdus mx c. ScrapeTarget (logged mock_scraper) example_runtime ''host'' DefaultAuth example_module
      example_metrics (?m0, []) = Some (Inr ((pdus, None), mx, c, [ReqGet [''1.4.0'', ''1.5.0''], ReqWalk ''1.3'']))"
    unfolding ScrapeTarget_def scrape_requests_def max
    by (simp add: example_module_def DefaultModule_def filter_init_def apply_targets_def
        get_loop.simps logged_simps mock_scraper_def mock_Get_eq mock_WalkAll_def Let_def not_supported_def
        mock_response_def NewMockSNMPScraper_def)
  then obtain pdus mx c where s: "ScrapeTarget (logged mock_scraper) example_runtime ''host'' DefaultAuth
      example_module example_metrics (?m0, []) =
      Some (Inr ((pdus, None), mx, c, [ReqGet [''1.4.0'', ''1.5.0''], ReqWalk ''1.3'']))" by blast
  from scrape_requests_log [OF s] show ?thesis
    by (auto simp: example_module_def DefaultModule_def filter_init_def apply_targets_def
        maxOids_of_def DefaultWalkParams_def DefaultAuth_def list_all_iff)
qed



text \<open>
  C14. The goroutines of the exporter refine a service whose operations are single steps: in
  every reachable state the read lock counts the requests inside, a writer is alone, only the
  request a reload is for waits for it, and every module in use has its metric; and each step
  is, seen from outside the lock, nothing, one more refusal counted, or one whole
  ReloadConfig.
\<close>

theorem service_refines:
  assumes "startup sys files expand dryRun initial_config = Inr (Running, sc)"
    and "(step marshal systems files expand)\<^sup>*\<^sup>* (started sc) s" "step marshal systems files expand s s'"
  shows "lock_ok s \<and> clients_ok s \<and> metrics_ok s \<and>
    (outside s' = outside s \<or> (\<exists>e. outside s' = snd (reject e (outside s))) \<or>
     (\<exists>sys \<in> systems. ReloadConfig sys files expand (outside s) = Inr (None, outside s')))"
proof -
  from service_ok_steps [OF assms(2) startup_ok(1) [OF assms(1)]]
  have "lock_ok s \<and> clients_ok s \<and> metrics_ok s" by (simp add: service_ok_def)
  moreover have "reload_established systems files expand s"
    using assms(2) startup_ok(2) [OF assms(1)]
    by (induction rule: rtranclp_induct) (auto intro: reload_established_step)
  ultimately show ?thesis using step_outside [OF assms(3)] by blast
qed

theorem service_refines_witness:
  "lock_ok (alone example_running (ProbeStart example_query) Waiting)"
proof -
  let ?S = "step (\<lambda>_. Inr []) {example_system} [''snmp.yml''] False"
  let ?s = "alone example_running (ProbeStart example_query) Waiting"
  have "?S\<^sup>*\<^sup>* (started example_running) ?s"
    by (intro r_into_rtranclp arrive_alone) simp
  moreover have "?S ?s (?s\<lparr>hup_pending := True\<rparr>)" by (simp add: step_def arrive.signal)
  ultimately show ?thesis using service_refines [OF example_startup] by blast
qed

text \<open>
  C15. The page that shows the configuration says of a community or a password only whether it
  is set: two configurations that differ in nothing but the contents of secrets give the same
  page, whatever the YAML encoder does with what it is given, and the view that the encoder
  gets hides nothing else; with DoNotHideSecrets on, as the generator writes the file, the
  view determines the configuration.
\<close>

theorem secrets_hidden:
  assumes "configs_same_but_secrets (C sc) (C sc')"
  shows "fst (config_page marshal sc) = fst (config_page marshal sc') \<and>
    (view_config False cfg = view_config False cfg' \<longleftrightarrow> configs_same_but_secrets cfg cfg') \<and>
    (view_config True cfg = view_config True cfg' \<longleftrightarrow> cfg = cfg')"
proof -
  from assms have v: "view_config False (C sc) = view_config False (C sc')" by (simp add: view_config_hidden)
  have "fst (config_page marshal sc) = fst (config_page marshal sc')" by (simp add: config_page_def Let_def v)
  then show ?thesis using view_config_hidden view_config_shown by blast
qed

theorem secrets_hidden_witness:
  "fst (config_page (\<lambda>v. Inr (concat (map fst (view_Auths v)))) example_config) =
   fst (config_page (\<lambda>v. Inr (concat (map fst (view_Auths v))))
     (example_config\<lparr>C := (C example_config)\<lparr>Auths := [(''public_v2'', Some (DefaultAuth\<lparr>Community := ''hunter2''\<rparr>))]\<rparr>\<rparr>))"
proof -
  let ?sc = "example_config\<lparr>C := (C example_config)\<lparr>Auths := [(''public_v2'', Some (DefaultAuth\<lparr>Community := ''hunter2''\<rparr>))]\<rparr>\<rparr>"
  have "configs_same_but_secrets (C example_config) (C ?sc)"
    by (simp add: configs_same_but_secrets_def same_but_secrets_def without_secrets_def same_secret_def
        example_config_def DefaultAuth_def)
  from secrets_hidden [OF this] show ?thesis by blast
qed

text \<open>
  C16. On a well-formed hint the single-pass interpreter computes what RFC 2579 describes in
  two phases: parse all the specifications, then apply them in order to the value, the last
  one repeating until the value is used up.
\<close>

theorem applyDisplayHint_rfc:
  assumes "parse_hint hint 0 = Some specs" and "hint \<noteq> []" "data \<noteq> []" "length data < 2 ^ 63"
  shows "applyDisplayHint hint data = Some (ref_run specs data)"
  by (rule applyDisplayHint_ref_run [OF assms])

theorem applyDisplayHint_rfc_witness:
  "applyDisplayHint ''1d.1x'' [10, 255, 1] = Some (Some ''10.FF01'')"
proof -
  let ?specs = "[\<lparr>starPrefix = False, spec_take = 1, fmtChar = CHR ''d'', spec_sep = Some CHR ''.'',
      spec_term = None\<rparr>, \<lparr>starPrefix = False, spec_take = 1, fmtChar = CHR ''x'', spec_sep = None,
      spec_term = None\<rparr>]"
  have p: "parse_hint ''1d.1x'' 0 = Some ?specs" by code_simp
  have r: "ref_run ?specs [10, 255, 1] = Some ''10.FF01''" by code_simp
  from applyDisplayHint_rfc [OF p, of "[10, 255, 1]"] r show ?thesis by simp
qed





text \<open>
  C19. minimizeOids, one pass over the sorted OIDs that compares each with the last one kept,
  computes the sorted list of exactly those OIDs that no other OID of the set covers: the
  fewest subtrees with everything in them, none inside another.
\<close>

theorem minimizeOids_reference:
  assumes "list_all oid_chars oids"
  shows "minimizeOids oids = sorted_list_of_set (minimal_oids (set oids))"
  by (rule minimizeOids_minimal [OF assms])

theorem minimizeOids_reference_witness:
  "sorted_list_of_set (minimal_oids {''1.3.10'', ''1.3.1.4.'', ''1.3.1'', ''1.3.2''}) = [''1.3.1'', ''1.3.10'', ''1.3.2'']"
proof -
  have "list_all oid_chars [''1.3.10'', ''1.3.1.4.'', ''1.3.1'', ''1.3.2'']" by code_simp
  moreover have "minimizeOids [''1.3.10'', ''1.3.1.4.'', ''1.3.1'', ''1.3.2''] = [''1.3.1'', ''1.3.10'', ''1.3.2'']"
    by code_simp
  ultimately show ?thesis using minimizeOids_reference [of "[''1.3.10'', ''1.3.1.4.'', ''1.3.1'', ''1.3.2'']"]
    by simp
qed

text \<open>
  C20. In a tree whose OIDs follow its paths, searchNodeTree finds a node exactly when the
  root covers the OID, and then one whose OID covers it and is at least as long as that of any
  other node that does, although the search goes into the first child that matches and never
  back.
\<close>

theorem searchNodeTree_longest:
  assumes "tree_ok (tree_data h t)"
  shows "case searchNodeTree h oid t of
      None \<Rightarrow> \<not> covers (oid_at h t) oid
    | Some s \<Rightarrow> longest_in h oid (subtrees t) s"
  using searchNodeTree_Some [OF assms] searchNodeTree_None
  by (auto split: option.splits)

theorem searchNodeTree_longest_witness:
  "longest_in example_heap ''1.2.1.8.5'' (subtrees example_tree) (Shape 3 [])"
proof -
  have "searchNodeTree example_heap ''1.2.1.8.5'' example_tree = Some (Shape 3 [])" by code_simp
  moreover have "tree_ok (tree_data example_heap example_tree)" by code_simp
  ultimately show ?thesis using searchNodeTree_longest [of example_heap example_tree "''1.2.1.8.5''"] by simp
qed



text \<open>
  C22. The overrides of a module do not reach another one: generateConfig produces each module
  from a copy that has the data the prepared tree had at the start, whatever the modules
  before it changed in theirs, and leaves the prepared tree itself as it was.
\<close>

theorem modules_generated_apart:
  assumes "generate_modules nodes ms (nx, h) = (r, nx', h')" and "list_all (\<lambda>a. a < nx) (addrs nodes)"
  shows "tree_data h' nodes = tree_data h nodes \<and>
    (case r of Inr (Inr out) \<Rightarrow> list_all2 (from_copy (tree_data h nodes)) ms out | _ \<Rightarrow> True)"
proof -
  have lt: "\<forall>a \<in> set (addrs nodes). a < nx" using assms(2) by (simp add: list_all_iff)
  note s = generate_modules_copies [OF assms(1) this]
  then have "tree_data h' nodes = tree_data h nodes" using lt by (intro tree_data_cong) blast
  with s show ?thesis by (simp split: sum.splits)
qed

theorem modules_generated_apart_witness:
  "tree_data (snd (snd (generate_modules example_tree
       [(''a'', Some example_module_config), (''b'', Some example_module_config)] (5, example_heap)))) example_tree =
   tree_data example_heap example_tree"
proof -
  have "list_all (\<lambda>a. a < 5) (addrs example_tree)" by code_simp
  then show ?thesis
    using modules_generated_apart [of example_tree
        "[(''a'', Some example_module_config), (''b'', Some example_module_config)]" 5 example_heap]
    by (metis prod.collapse)
qed

text \<open>
  C23. What types a module that generateConfigModule produces can have, whatever the MIB, the
  overrides and the lookups: every metric has a type pduToSamples has a case for; an index has
  one the exporter decodes or one of the seven listed in unhandled_index_types, for which it
  panics; a lookup has a type metricType answers, or none when it removes a label.
\<close>

theorem generated_types:
  assumes "generateConfigModule cfg node nameToNode h0 = (Inr (Inr out), h)"
  shows "list_all (\<lambda>m. metric_Type m \<in> set value_types \<union> set text_types \<and>
      list_all (\<lambda>i. index_Type i \<in> set known_index_types \<union> set unhandled_index_types) (metric_Indexes m) \<and>
      list_all (\<lambda>l. lookup_Type l = [] \<or> lookup_Type l \<in> set metric_types) (metric_Lookups m))
    (module_Metrics out)"
proof -
  have "metric_Type m \<in> set value_types \<union> set text_types \<and>
      list_all (\<lambda>i. index_Type i \<in> set known_index_types \<union> set unhandled_index_types) (metric_Indexes m) \<and>
      list_all (\<lambda>l. lookup_Type l = [] \<or> lookup_Type l \<in> set metric_types) (metric_Lookups m)"
    if "types_known m" for m
    using that metric_types_handled index_types_handled by (simp add: types_known_def list_all_iff)
  then show ?thesis using generated_types_known [OF assms] unfolding list_all_iff by blast
qed

theorem generated_types_witness:
  "list_all (\<lambda>m. list_all (\<lambda>i. index_Type i \<in> set known_index_types \<union> set unhandled_index_types)
     (metric_Indexes m)) (module_Metrics example_generated)"
proof -
  obtain h where "generateConfigModule example_module_config example_tree example_names example_heap =
      (Inr (Inr example_generated), h)"
    using example_generates by (metis prod.collapse)
  from generated_types [OF this] show ?thesis by (simp add: list_all_iff)
qed





text \<open>
  C26. The tree of linked Go nodes that getMIBTree builds has exactly the data of the C tree,
  computed without a heap: children sorted by their component, OIDs spelled out along the
  paths, no node shared; and when no two peers have the same component, every OID is that of
  the parent and one component more and siblings differ.
\<close>

theorem mib_tree_reference:
  assumes "getMIBTree ct = (t, nx, h)"
  shows "tree_data h t = mib_data [] ct \<and> distinct (addrs t) \<and> set (addrs t) = {0..<nx} \<and>
    (peers_ok ct \<longrightarrow> tree_ok (tree_data h t))"
  using getMIBTree_spec [OF assms] by (simp add: mib_data_ok)

theorem mib_tree_reference_witness:
  "tree_ok (tree_data (snd (snd (getMIBTree example_ctree))) (fst (getMIBTree example_ctree)))"
proof -
  have "getMIBTree example_ctree =
      (fst (getMIBTree example_ctree), fst (snd (getMIBTree example_ctree)), snd (snd (getMIBTree example_ctree)))"
    by simp
  moreover have "peers_ok example_ctree" by code_simp
  ultimately show ?thesis using mib_tree_reference by blast
qed

text \<open>
  C27. Decoding an index neither loses nor invents components of the OID: what it used,
  followed by what it leaves for the next index, is the OID, padded with zeros only when the
  OID was too short.
\<close>

theorem index_conserves:
  assumes "indexOidsAsString oids ty fixedSize implied ev = Inr (str, used, rest)"
  shows "\<exists>k. used @ rest = oids @ replicate k 0 \<and> (0 < k \<longrightarrow> rest = [])"
  using indexOidsAsString_conserves [OF assms] by (simp add: conserves_def)

theorem index_conserves_witness:
  "\<exists>k. [3 :: int, 1, 0, 0] @ [] = [3, 1] @ replicate k 0 \<and> (0 < k \<longrightarrow> [] = ([] :: int list))"
proof -
  have "indexOidsAsString [3, 1] ''OctetString'' 0 False [] = Inr (''0x010000'', [3, 1, 0, 0], [])"
    by code_simp
  then show ?thesis by (rule index_conserves)
qed

text \<open>
  C28. No OID that can come over the wire makes the decoding of an index panic, for every
  index type the decoder knows, whatever lengths the OID claims.
\<close>

theorem index_types_total:
  assumes "wire_oid oids" and "0 \<le> fixedSize" and "ty \<in> set known_index_types"
  shows "\<exists>r. indexOidsAsString oids ty fixedSize implied ev = Inr r"
  by (rule indexOidsAsString_total [OF assms])

theorem index_types_total_witness:
  "\<exists>r. indexOidsAsString [1] ''InetAddress'' 0 False [] = Inr r"
  by (rule index_types_total) (simp_all add: wire_oid_def known_index_types_def)

text \<open>
  C29. The labels of a sample are distinct, and they are exactly the index labels after the
  lookups in order: a lookup without source labels drops its label, any other lookup makes its
  label present even when the device has no row for it.
\<close>

theorem label_names_exact:
  assumes "indexesToLabels rt oids metric oidToPdu metrics = Inr (labels, metrics')"
  shows "distinct (map fst labels) \<and> fst ` set labels =
    fold lookup_names (metric_Lookups metric) (index_Labelname ` set (metric_Indexes metric))"
  using indexesToLabels_distinct [OF assms] indexesToLabels_names [OF assms] by simp

theorem label_names_exact_witness:
  "distinct (map fst [(''ifIndex'', ''7'')]) \<and> {''ifIndex''} = index_Labelname ` {example_index}"
proof -
  have "indexesToLabels example_runtime [7] (example_metric ''1.3'' ''gauge'') Map.empty example_metrics =
      Inr ([(''ifIndex'', ''7'')], example_metrics)"
    by code_simp
  from label_names_exact [OF this] show ?thesis by (simp add: example_metric_def)
qed

text \<open>
  C30. A state set has exactly one sample for each state of the enumeration, 1 for the state
  the device is in and 0 for every other; a value outside the enumeration adds its number as a
  state of its own.
\<close>

theorem state_set_values:
  assumes "prom_ok rt okName okLabel" "names_ok okName okLabel metric" "good_labels okLabel ns vs"
    and "metric_Name metric \<notin> set ns" "enum_clean (metric_EnumValues metric)"
    and "distinct (map fst (metric_EnumValues metric))"
  shows "mset (map (\<lambda>s. (last (sample_labels s), sample_value s)) (enumAsStateSet rt metric v ns vs)) =
    state_values (metric_EnumValues metric) v"
proof -
  have "okName (metric_Name metric)" "okLabel (metric_Name metric)"
    using assms(2) by (simp_all add: names_ok_def)
  note * = enumAsStateSet_good [OF assms(1) this assms(3-5)]
  show ?thesis unfolding * state_values_eq [OF assms(6), symmetric]
    by (simp add: o_def case_prod_unfold)
qed

theorem state_set_values_witness:
  "mset (map (\<lambda>s. (last (sample_labels s), sample_value s))
      (enumAsStateSet example_runtime (example_metric ''1.3'' ''EnumAsStateSet'') 2 [] [])) =
   {#(''up'', f64_zero), (''down'', f64_one)#}"
proof -
  have valid: "valid_utf8 ''up''" "valid_utf8 ''down''" by code_simp+
  have "state_values [(1, ''up''), (2, ''down'')] 2 = {#(''up'', f64_zero), (''down'', f64_one)#}"
    by (simp add: state_values_def)
  then show ?thesis
    using state_set_values [OF example_runtime_ok(4), of "example_metric ''1.3'' ''EnumAsStateSet''" "[]" "[]" 2]
    by (simp add: names_ok_def good_labels_def enum_clean_def example_metric_def valid del: valid_utf8.simps)
qed

text \<open>
  C31. A BITS value gives one sample per named bit, 1 exactly when the bit counted from the
  most significant bit of the first byte is set; bits beyond the end of the value are 0.
\<close>

theorem bits_values:
  assumes "prom_ok rt okName okLabel" "names_ok okName okLabel metric" "good_labels okLabel ns vs"
    and "metric_Name metric \<notin> set ns" "enum_clean (metric_EnumValues metric)"
    and "\<forall>e \<in> set (metric_EnumValues metric). 0 \<le> fst e"
  shows "bits_metric rt metric (GBytes bs) ns vs = Inr (map (\<lambda>(k, t).
    state_const '' (Bits)'' metric ns vs (if snmp_bit bs (nat k) then f64_one else f64_zero) t)
      (metric_EnumValues metric))"
  unfolding bits_metric_good [OF assms(1-5)] by (rule mapG_bits [OF assms(6)])

theorem bits_values_witness:
  "bits_metric example_runtime (example_metric ''1.3'' ''Bits'') (GBytes [64]) [] [] =
   Inr [state_const '' (Bits)'' (example_metric ''1.3'' ''Bits'') [] [] f64_one ''up'',
        state_const '' (Bits)'' (example_metric ''1.3'' ''Bits'') [] [] f64_zero ''down'']"
proof -
  have valid: "valid_utf8 ''up''" "valid_utf8 ''down''" by code_simp+
  have "snmp_bit [64] 1" "\<not> snmp_bit [64] 2" by code_simp+
  then show ?thesis
    using bits_values [OF example_runtime_ok(4), of "example_metric ''1.3'' ''Bits''" "[]" "[]" "[64]"]
    by (simp add: names_ok_def good_labels_def enum_clean_def example_metric_def valid del: valid_utf8.simps)
qed


text \<open>
  C33. NewGoSNMP takes a target apart as documented: an optional transport (udp by default), a
  host name, IPv4 address or bracketed IPv6 address, and an optional port (161 by default),
  for every port of 16 bits.
\<close>

theorem target_parsing:
  assumes "address_ok a" and "\<And>t. transport = Some t \<Longrightarrow> CHR '':'' \<notin> set t"
    and "\<And>p. port = Some p \<Longrightarrow> p \<le> 65535"
  shows "NewGoSNMP (target_text transport a port) srcAddress =
    Inr (zero_GoSNMP\<lparr>Transport := (case transport of None \<Rightarrow> ''udp'' | Some t \<Rightarrow> t),
      Target := address_host a, Port := (case port of None \<Rightarrow> 161 | Some p \<Rightarrow> word_of_nat p),
      LocalAddr := srcAddress\<rparr>)"
  using parse_target_text [of a transport port] assms by (simp add: NewGoSNMP_def)

theorem target_parsing_witness:
  "NewGoSNMP ''tcp://[::1]:1161'' [] = Inr (zero_GoSNMP\<lparr>Transport := ''tcp'', Target := ''::1'',
     Port := 1161, LocalAddr := []\<rparr>)"
proof -
  have "target_text (Some ''tcp'') (IPv6 ''::1'') (Some 1161) = ''tcp://[::1]:1161''" by code_simp
  then show ?thesis
    using target_parsing [of "IPv6 ''::1''" "Some ''tcp''" "Some 1161" "[]"] by simp
qed



text \<open>
  C35. With wrap-large-counters a 64-bit counter is exported modulo 2^53, a value that a
  float64 holds exactly: consecutive readings differ by exactly the increments of the counter
  modulo 2^53.
\<close>

theorem wrapped_counter_exact:
  assumes "bigint_ok rt" and "wrapCounters rt"
    and "pdu_Type pdu = Counter64" and "pdu_Value pdu = GUint64 w"
  shows "\<exists>x. getPduValue rt pdu = Inr x \<and> f64_is_int x (uint w mod 2 ^ 53)"
  using getPduValue_wrapped_exact [OF assms] by blast

theorem wrapped_counter_exact_witness:
  "\<exists>x. getPduValue example_runtime \<lparr>pdu_Name = ''.1'', pdu_Type = Counter64, pdu_Value = GUint64 (- 1)\<rparr>
     = Inr x \<and> f64_is_int x (uint (- 1 :: 64 word) mod 2 ^ 53)"
  by (rule wrapped_counter_exact) (simp_all, simp add: example_runtime_def)



text \<open>
  C37. The text form of an OID is read back as the same components, so two OIDs with the same
  text are the same OID and the map from OID texts to variables keeps all variables apart.
\<close>

theorem oid_text_roundtrip:
  assumes "oid_list l" and "oid_list l'"
  shows "oidToList (listToOid l) = l \<and> (listToOid l = listToOid l' \<longleftrightarrow> l = l')"
  using oid.dec_enc [OF assms(1)] oid.enc_inject [OF assms] by simp

theorem oid_text_roundtrip_witness:
  "oidToList (listToOid [1, 3, 6]) = [1, 3, 6] \<and> (listToOid [1, 3, 6] = listToOid [1, 36] \<longleftrightarrow> False)"
  using oid_text_roundtrip [of "[1, 3, 6]" "[1, 36]"] by (simp add: oid_list_def in_i64_def)

text \<open>
  C38. applyDisplayHint returns on every hint and every value, although a hint repeats its
  last specification for as long as data is left: each repetition consumes a byte.
\<close>

theorem applyDisplayHint_total: "\<exists>r. applyDisplayHint hint data = Some r"
  using hint_loop_total [OF hint_inv_init] by (auto simp: applyDisplayHint_def)

text \<open>
  C39. ScrapeTarget returns (with variables, an error or a panic) on every module, every
  configuration of repetitions and every scraper: the loop of GETs always takes a nonempty
  batch off its list.
\<close>

theorem scrape_returns: "\<exists>r. ScrapeTarget snmp rt target auth module metrics c = Some r"
  by (rule ScrapeTarget_total)



end
